theory Spec2Isabelle
  imports Main "HOL-Library.Word" "HOL-Library.Char_ord" "HOL-Library.List_Lexorder"
begin

section \<open>LevelDB Preferences: the JNI bridge \<^verbatim>\<open>jni/db_jni.cpp\<close>\<close>

text \<open>
  The bridge sits between a Java caller and the leveldb engine. The engine
  (\<^verbatim>\<open>leveldb::DB\<close>, \<^verbatim>\<open>leveldb::Status\<close>, \<^verbatim>\<open>leveldb::WriteBatch\<close>, \<^verbatim>\<open>leveldb::Iterator\<close>) and
  the JNI helpers of \<^verbatim>\<open>jni_utils.h\<close> are not part of \<^verbatim>\<open>db_jni.cpp\<close>: they appear below as
  small models of their interface, each marked as such. Everything else follows the C++
  text function by function.
\<close>

subsection \<open>Bytes, Java values, exceptions\<close>

type_synonym byte = "8 word"
type_synonym bytes = "byte list"
type_synonym jchar = "16 word"
type_synonym jstring = "jchar list"
type_synonym jsize = "32 word"
type_synonym jint = "32 word"
type_synonym jlong = "64 word"
type_synonym jboolean = "8 word"

definition JNI_TRUE :: jboolean where "JNI_TRUE = 1"
definition JNI_FALSE :: jboolean where "JNI_FALSE = 0"

text \<open>The Java exception classes the bridge throws through \<^verbatim>\<open>jni::throw_new\<close>.\<close>

datatype jclass = AssertionError | IllegalArgumentException | IllegalStateException
  | FileNotFoundException

datatype exn = Exn jclass string

text \<open>
  Modelled from the spec: \<^verbatim>\<open>leveldb::Status\<close>, the engine's answer to a call (the engine is
  not part of \<^verbatim>\<open>db_jni.cpp\<close>). It is taken as the bridge observes it, through the four member
  functions it calls; a transient failure is an I/O error whose text holds "Try again".
\<close>

record status =
  ok :: bool
  IsIOError :: bool
  IsNotFound :: bool
  ToString :: string

subsection \<open>Error texts\<close>

text \<open>\<^verbatim>\<open>std::to_string\<close> on an unsigned and on a signed integer.\<close>

definition digit_char :: "nat \<Rightarrow> char" where
  "digit_char d = ''0123456789'' ! d"

function to_string :: "nat \<Rightarrow> string" where
  "to_string n = (if n < 10 then [digit_char n] else to_string (n div 10) @ [digit_char (n mod 10)])"
  by pat_completeness auto
termination
  by (relation "measure id") auto

declare to_string.simps [simp del]

definition to_string_int :: "int \<Rightarrow> string" where
  "to_string_int i = (if i < 0 then CHR ''-'' # to_string (nat (- i)) else to_string (nat i))"

text \<open>The macros \<^verbatim>\<open>MODULO_MESSAGE\<close>, \<^verbatim>\<open>NEQ_MESSAGE\<close> and \<^verbatim>\<open>LESS_MESSAGE\<close>.\<close>

definition MODULO_MESSAGE :: "nat \<Rightarrow> nat \<Rightarrow> string" where
  "MODULO_MESSAGE a b = ''('' @ to_string a @ '' % '' @ to_string b @ '') != 0''"

definition NEQ_MESSAGE :: "nat \<Rightarrow> nat \<Rightarrow> string" where
  "NEQ_MESSAGE a b = to_string a @ '' != '' @ to_string b"

definition LESS_MESSAGE :: "string \<Rightarrow> string \<Rightarrow> string" where
  "LESS_MESSAGE a b = a @ '' < '' @ b"

definition makeErrorText :: "string \<Rightarrow> string \<Rightarrow> string \<Rightarrow> string" where
  "makeErrorText prefix message key =
     (if key = [] then prefix @ '': '' @ message
      else prefix @ '': '' @ message @ '', key:'' @ key)"

text \<open>
  \<^verbatim>\<open>ERROR_PREFIX\<close> is \<^verbatim>\<open>__func__\<close>, a colon and \<^verbatim>\<open>__LINE__\<close>. Inside \<^verbatim>\<open>DB_FUNC\<close> the function
  name carries the JNI package prefix.
\<close>

definition ERROR_PREFIX :: "string \<Rightarrow> nat \<Rightarrow> string" where
  "ERROR_PREFIX func line = func @ '':'' @ to_string line"

definition NativeBridge :: "string \<Rightarrow> string" where
  "NativeBridge name = ''Java_me_vkryl_leveldb_NativeBridge_'' @ name"

definition ON_RECOVERABLE_ERROR :: "string \<Rightarrow> nat \<Rightarrow> string \<Rightarrow> string \<Rightarrow> exn" where
  "ON_RECOVERABLE_ERROR func line message key =
     Exn AssertionError (makeErrorText (ERROR_PREFIX func line) message key)"

definition ON_ARGUMENT_ERROR :: "string \<Rightarrow> nat \<Rightarrow> string \<Rightarrow> string \<Rightarrow> exn" where
  "ON_ARGUMENT_ERROR func line message key =
     Exn IllegalArgumentException (makeErrorText (ERROR_PREFIX func line) message key)"

definition ON_VALUE_ERROR :: "string \<Rightarrow> nat \<Rightarrow> string \<Rightarrow> string \<Rightarrow> exn" where
  "ON_VALUE_ERROR func line message key =
     Exn IllegalStateException (makeErrorText (ERROR_PREFIX func line) message key)"

text \<open>\<^verbatim>\<open>std::string::find(needle) != npos\<close>.\<close>

fun str_contains :: "string \<Rightarrow> string \<Rightarrow> bool" where
  "str_contains [] needle = (needle = [])"
| "str_contains (c # cs) needle =
     (take (length needle) (c # cs) = needle \<or> str_contains cs needle)"

subsection \<open>Opening the database\<close>

text \<open>
  What \<^verbatim>\<open>dbOpen\<close> does to the outside, in order: calls of \<^verbatim>\<open>leveldb::DB::Open\<close> and
  \<^verbatim>\<open>leveldb::RepairDB\<close>, \<^verbatim>\<open>usleep\<close> with its argument in microseconds, the call of the
  Java method \<^verbatim>\<open>onFatalError\<close>, and an exception thrown. The \<^verbatim>\<open>__android_log_print\<close> lines
  are left out.
\<close>

datatype open_event = Open | Repair | Usleep nat | FatalHook string | ThrowNew exn

text \<open>
  \<^verbatim>\<open>onFatalError\<close>: the Java object's method is called when it exists
  (\<^verbatim>\<open>mid != nullptr\<close>), otherwise an \<^verbatim>\<open>AssertionError\<close> is thrown.
\<close>

definition onFatalError :: "bool \<Rightarrow> string \<Rightarrow> open_event list" where
  "onFatalError has_mid error =
     (if has_mid then [FatalHook error] else [ThrowNew (Exn AssertionError error)])"

text \<open>
  The \<^verbatim>\<open>do ... while (true)\<close> loop of \<^verbatim>\<open>dbOpen\<close>. The engine is the function \<open>opens\<close>: the
  status of the \<open>n\<close>-th call of \<^verbatim>\<open>DB::Open\<close>, counted from 0. Inside the loop the number
  of calls made before equals \<^verbatim>\<open>attempt_count\<close>. The loop ends with \<^verbatim>\<open>return 0\<close> after
  reporting (\<open>Abort\<close>, with the status and \<^verbatim>\<open>total_wait\<close>) or with \<^verbatim>\<open>break\<close>.
\<close>

datatype loop_exit = Abort status nat | Break status nat

definition try_again :: "status \<Rightarrow> bool" where
  "try_again st \<longleftrightarrow> \<not> ok st \<and> IsIOError st \<and> str_contains (ToString st) ''Try again''"

function open_loop :: "(nat \<Rightarrow> status) \<Rightarrow> nat \<Rightarrow> open_event list \<times> loop_exit" where
  "open_loop opens attempt_count =
     (let st = opens attempt_count in
      if try_again st then
        (let total_wait = 100 * attempt_count in
         if total_wait < 5000 then
           (case open_loop opens (attempt_count + 1) of
              (evs, ex) \<Rightarrow> (Open # Usleep 100000 # evs, ex))
         else ([Open], Abort st total_wait))
      else ([Open], Break st attempt_count))"
  by pat_completeness auto
termination
  by (relation "measure (\<lambda>(opens, attempt_count). 50 - attempt_count)") auto

declare open_loop.simps [simp del]

text \<open>
  \<^verbatim>\<open>dbOpen\<close>. The result is \<open>None\<close> for \<^verbatim>\<open>return 0\<close> and \<open>Some n\<close> for the handle that
  the \<open>n\<close>-th call of \<^verbatim>\<open>DB::Open\<close> produced. \<open>repair\<close> is the status \<^verbatim>\<open>RepairDB\<close> returns.
\<close>

definition dbOpen :: "bool \<Rightarrow> (nat \<Rightarrow> status) \<Rightarrow> status \<Rightarrow> nat option \<times> open_event list" where
  "dbOpen has_mid opens repair =
     (case open_loop opens 0 of
        (evs, Abort st total_wait) \<Rightarrow>
          (None, evs @ onFatalError has_mid
             (makeErrorText (ERROR_PREFIX (NativeBridge ''dbOpen'') 126)
                (ToString st @ '', total_wait: '' @ to_string total_wait @ ''ms'') []))
      | (evs, Break st n) \<Rightarrow>
          if \<not> ok st then
            (let error = ToString st in
             if \<not> ok repair then
               (None, evs @ [Repair] @ onFatalError has_mid
                  (makeErrorText (ERROR_PREFIX (NativeBridge ''dbOpen'') 150) error []))
             else
               (let st' = opens (n + 1) in
                if \<not> ok st' then
                  (None, evs @ [Repair, Open] @ onFatalError has_mid
                     (makeErrorText (ERROR_PREFIX (NativeBridge ''dbOpen'') 150) (ToString st') []))
                else (Some (n + 1), evs @ [Repair, Open])))
          else (Some n, evs))"

text \<open>Engine statuses and open scripts used to run \<^verbatim>\<open>dbOpen\<close> on concrete inputs.\<close>

definition st_ok :: status where
  "st_ok = \<lparr>ok = True, IsIOError = False, IsNotFound = False, ToString = ''OK''\<rparr>"

definition st_busy :: status where
  "st_busy = \<lparr>ok = False, IsIOError = True, IsNotFound = False,
     ToString = ''IO error: lock /db/LOCK: Try again''\<rparr>"

definition st_corrupt :: status where
  "st_corrupt = \<lparr>ok = False, IsIOError = False, IsNotFound = False,
     ToString = ''Corruption: bad manifest''\<rparr>"

definition st_io :: status where
  "st_io = \<lparr>ok = False, IsIOError = True, IsNotFound = False,
     ToString = ''IO error: disk full''\<rparr>"

definition busy_then :: "nat \<Rightarrow> status \<Rightarrow> nat \<Rightarrow> status" where
  "busy_then k st n = (if n < k then st_busy else st)"

definition corrupt_then :: "status \<Rightarrow> nat \<Rightarrow> status" where
  "corrupt_then st n = (if n = 0 then st_corrupt else st)"

text \<open>The arguments of the \<^verbatim>\<open>usleep\<close> calls of a run, in order.\<close>

fun sleeps :: "open_event list \<Rightarrow> nat list" where
  "sleeps [] = []"
| "sleeps (Usleep t # evs) = t # sleeps evs"
| "sleeps (e # evs) = sleeps evs"

subsection \<open>The engine\<close>

text \<open>
  Modelled from the spec: the ordered key-value engine (\<^verbatim>\<open>leveldb::DB\<close>, its iterator and
  its write batch), which the bridge only calls. Following the spec's engine contract, the
  store holds byte-string values under string keys in ascending byte-lexicographic key
  order; an iterator is a snapshot of the remaining entries with the current one at the
  head; a write batch is the list of staged operations, applied in order and all at once
  by \<^verbatim>\<open>Write\<close>; \<^verbatim>\<open>Delete\<close> of an absent key is no error. Any call that can fail does so
  when the environment says so (\<open>fault\<close>), with an I/O error and no effect.
\<close>

type_synonym store = "(string \<times> bytes) list"

datatype op = Put string bytes | Delete string

type_synonym WriteBatch = "op list"

datatype call = NewIterator | Get string | PutCall string bytes | DeleteCall string
  | Write WriteBatch

record world =
  db :: store
  fault :: "string option"
  calls :: "call list"
  thrown :: "exn list"

fun store_put :: "string \<Rightarrow> bytes \<Rightarrow> store \<Rightarrow> store" where
  "store_put k v [] = [(k, v)]"
| "store_put k v ((k', v') # s) =
     (if k < k' then (k, v) # (k', v') # s
      else if k = k' then (k, v) # s
      else (k', v') # store_put k v s)"

fun store_delete :: "string \<Rightarrow> store \<Rightarrow> store" where
  "store_delete k [] = []"
| "store_delete k ((k', v') # s) = (if k = k' then store_delete k s else (k', v') # store_delete k s)"

fun apply_op :: "op \<Rightarrow> store \<Rightarrow> store" where
  "apply_op (Put k v) s = store_put k v s"
| "apply_op (Delete k) s = store_delete k s"

definition apply_batch :: "WriteBatch \<Rightarrow> store \<Rightarrow> store" where
  "apply_batch batch s = fold apply_op batch s"

text \<open>What an operation does to the lookups, for comparison with \<open>apply_op\<close>.\<close>

fun op_effect :: "op \<Rightarrow> (string \<rightharpoonup> bytes) \<Rightarrow> (string \<rightharpoonup> bytes)" where
  "op_effect (Put k v) m = m(k \<mapsto> v)"
| "op_effect (Delete k) m = m(k := None)"

definition io_error :: "string \<Rightarrow> status" where
  "io_error msg = \<lparr>ok = False, IsIOError = True, IsNotFound = False,
     ToString = ''IO error: '' @ msg\<rparr>"

definition not_found :: status where
  "not_found = \<lparr>ok = False, IsIOError = False, IsNotFound = True, ToString = ''NotFound: ''\<rparr>"

definition called :: "call \<Rightarrow> world \<Rightarrow> world" where
  "called c w = w\<lparr>calls := calls w @ [c]\<rparr>"

definition db_NewIterator :: "world \<Rightarrow> store \<times> world" where
  "db_NewIterator w = (db w, called NewIterator w)"

definition db_Get :: "world \<Rightarrow> string \<Rightarrow> status \<times> bytes \<times> world" where
  "db_Get w key =
     (case fault w of
        Some msg \<Rightarrow> (io_error msg, [], called (Get key) w)
      | None \<Rightarrow>
          (case map_of (db w) key of
             None \<Rightarrow> (not_found, [], called (Get key) w)
           | Some v \<Rightarrow> (st_ok, v, called (Get key) w)))"

definition db_Put :: "world \<Rightarrow> string \<Rightarrow> bytes \<Rightarrow> status \<times> world" where
  "db_Put w key v =
     (case fault w of
        Some msg \<Rightarrow> (io_error msg, called (PutCall key v) w)
      | None \<Rightarrow> (st_ok, called (PutCall key v) (w\<lparr>db := store_put key v (db w)\<rparr>)))"

definition db_Delete :: "world \<Rightarrow> string \<Rightarrow> status \<times> world" where
  "db_Delete w key =
     (case fault w of
        Some msg \<Rightarrow> (io_error msg, called (DeleteCall key) w)
      | None \<Rightarrow> (st_ok, called (DeleteCall key) (w\<lparr>db := store_delete key (db w)\<rparr>)))"

definition db_Write :: "world \<Rightarrow> WriteBatch \<Rightarrow> status \<times> world" where
  "db_Write w batch =
     (case fault w of
        Some msg \<Rightarrow> (io_error msg, called (Write batch) w)
      | None \<Rightarrow> (st_ok, called (Write batch) (w\<lparr>db := apply_batch batch (db w)\<rparr>)))"

text \<open>\<^verbatim>\<open>itr->Seek(target)\<close>: the entries from the first key at or after the target.\<close>

definition Seek :: "string \<Rightarrow> store \<Rightarrow> store" where
  "Seek target itr = dropWhile (\<lambda>(k, v). k < target) itr"

text \<open>
  Modelled from the spec: \<^verbatim>\<open>jni::throw_new\<close> (of \<^verbatim>\<open>jni_utils.h\<close>, not among the sources)
  surfaces an error to the caller: an exception of the given class and text is raised in
  the Java caller when the native call returns. The world records them in order.
\<close>

definition throw_new :: "exn \<Rightarrow> world \<Rightarrow> world" where
  "throw_new e w = w\<lparr>thrown := thrown w @ [e]\<rparr>"

subsection \<open>Operations on a key prefix\<close>

text \<open>
  Keys and prefixes are taken after \<^verbatim>\<open>jni::from_jstring\<close>, as the \<^verbatim>\<open>std::string\<close> the
  bridge works on. The test \<^verbatim>\<open>key.compare(0, prefix.size(), prefix) == 0\<close> holds when the
  first \<^verbatim>\<open>prefix.size()\<close> characters of the key are the prefix.
\<close>

definition has_prefix :: "string \<Rightarrow> string \<Rightarrow> bool" where
  "has_prefix key prefix \<longleftrightarrow> take (length prefix) key = prefix"

fun size_loop :: "string \<Rightarrow> store \<Rightarrow> nat \<Rightarrow> nat" where
  "size_loop prefix [] count = count"
| "size_loop prefix ((key, v) # itr) count =
     (if has_prefix key prefix then size_loop prefix itr (count + 1) else count)"

definition dbGetSizeByPrefix :: "world \<Rightarrow> string \<Rightarrow> jlong \<times> world" where
  "dbGetSizeByPrefix w prefix =
     (if prefix = [] then
        (- 1, throw_new (ON_ARGUMENT_ERROR (NativeBridge ''dbGetSizeByPrefix'') 179
                 ''prefix.empty()'' []) w)
      else
        (case db_NewIterator w of
           (itr, w') \<Rightarrow> (of_nat (size_loop prefix (Seek prefix itr) 0), w')))"

definition sizeof_jbyte :: nat where "sizeof_jbyte = 1"

fun findAll_loop :: "string \<Rightarrow> store \<Rightarrow> bytes list \<Rightarrow> world \<Rightarrow> bytes list \<times> world" where
  "findAll_loop prefix [] values w = (values, w)"
| "findAll_loop prefix ((key, v) # itr) values w =
     (if \<not> has_prefix key prefix then (values, w)
      else if length v mod sizeof_jbyte \<noteq> 0 then
        findAll_loop prefix itr values
          (throw_new (ON_VALUE_ERROR (NativeBridge ''dbFindAll'') 222
             (MODULO_MESSAGE (length v) sizeof_jbyte) key) w)
      else findAll_loop prefix itr (values @ [v]) w)"

definition dbFindAll :: "world \<Rightarrow> string \<Rightarrow> bytes list option \<times> world" where
  "dbFindAll w prefix =
     (if prefix = [] then
        (None, throw_new (ON_ARGUMENT_ERROR (NativeBridge ''dbFindAll'') 209
                 ''prefix.empty()'' []) w)
      else
        (case db_NewIterator w of
           (itr, w') \<Rightarrow>
             (case findAll_loop prefix (Seek prefix itr) [] w' of
                (values, w'') \<Rightarrow>
                  if values = [] then (None, w'')
                  else (Some (map (\<lambda>v. take (length v div sizeof_jbyte) v) values), w''))))"

fun findByValue_loop :: "string \<Rightarrow> bytes \<Rightarrow> store \<Rightarrow> string" where
  "findByValue_loop prefix v [] = []"
| "findByValue_loop prefix v ((key, data) # itr) =
     (if \<not> has_prefix key prefix then []
      else if length v = length data \<and> (length data = 0 \<or> v = data) then key
      else findByValue_loop prefix v itr)"

definition dbFindByValue :: "world \<Rightarrow> string \<Rightarrow> bytes \<Rightarrow> string option \<times> world" where
  "dbFindByValue w prefix jValue =
     (if prefix = [] then
        (None, throw_new (ON_ARGUMENT_ERROR (NativeBridge ''dbFindByValue'') 250
                 ''prefix.empty()'' []) w)
      else
        (case db_NewIterator w of
           (itr, w') \<Rightarrow>
             (let found_key = findByValue_loop prefix jValue (Seek prefix itr) in
              if found_key \<noteq> [] then (Some found_key, w') else (None, w'))))"

text \<open>
  The \<^verbatim>\<open>DatabaseIterator\<close> struct (its members \<^verbatim>\<open>prefix\<close> and \<^verbatim>\<open>itr\<close>) and \<^verbatim>\<open>dbFind\<close>,
  which opens or advances it. \<^verbatim>\<open>jKeyPrefix\<close> may be a null reference (\<open>None\<close>), read as the
  empty string.
\<close>

record DatabaseIterator =
  it_prefix :: string
  it_itr :: store

definition is_valid :: "DatabaseIterator \<Rightarrow> bool" where
  "is_valid it =
     (case it_itr it of [] \<Rightarrow> False | (key, v) # rest \<Rightarrow> has_prefix key (it_prefix it))"

definition "next" :: "DatabaseIterator \<Rightarrow> bool \<times> DatabaseIterator" where
  "next it = (let it' = it\<lparr>it_itr := tl (it_itr it)\<rparr> in (is_valid it', it'))"

definition dbFind :: "world \<Rightarrow> string option \<Rightarrow> DatabaseIterator option \<Rightarrow>
    DatabaseIterator option \<times> world" where
  "dbFind w jKeyPrefix iteratorPtr =
     (case iteratorPtr of
        Some iterator \<Rightarrow>
          if jKeyPrefix \<noteq> None then
            (None, throw_new (ON_ARGUMENT_ERROR (NativeBridge ''dbFind'') 324
                     ''!prefix.empty()'' []) w)
          else (case next iterator of (valid, it') \<Rightarrow> if valid then (Some it', w) else (None, w))
      | None \<Rightarrow>
          (let prefix = (case jKeyPrefix of None \<Rightarrow> [] | Some p \<Rightarrow> p) in
           if prefix = [] then
             (None, throw_new (ON_ARGUMENT_ERROR (NativeBridge ''dbFind'') 331
                      ''prefix.empty()'' []) w)
           else
             (case db_NewIterator w of
                (snapshot, w') \<Rightarrow>
                  (let iterator = \<lparr>it_prefix = prefix, it_itr = Seek prefix snapshot\<rparr> in
                   if is_valid iterator then (Some iterator, w') else (None, w')))))"

subsection \<open>Removal by prefix and batches\<close>

text \<open>
  The scan of \<^verbatim>\<open>dbRemoveByPrefix\<close> and of \<^verbatim>\<open>dbRemoveByAnyPrefix\<close>. \<open>batch\<close> is the pointer
  \<^verbatim>\<open>batch\<close>: \<open>None\<close> is \<^verbatim>\<open>nullptr\<close>, and a new batch is made at the first match.
\<close>

fun remove_loop :: "string \<Rightarrow> store \<Rightarrow> WriteBatch option \<Rightarrow> nat \<Rightarrow> WriteBatch option \<times> nat" where
  "remove_loop prefix [] batch removed_count = (batch, removed_count)"
| "remove_loop prefix ((key, v) # itr) batch removed_count =
     (if has_prefix key prefix then
        remove_loop prefix itr
          (Some ((case batch of None \<Rightarrow> [] | Some b \<Rightarrow> b) @ [Delete key]))
          (removed_count + 1)
      else (batch, removed_count))"

text \<open>
  The common tail of both functions. With a caller's batch (\<^verbatim>\<open>batchPtr != 0\<close>), or with
  nothing to remove, the count is returned and nothing is written; the batch the caller
  holds is then the one the scan appended to. Otherwise the batch of the scan, which is not
  null because \<^verbatim>\<open>removed_count\<close> is not 0, is written and deleted. The result is the
  \<^verbatim>\<open>size_t\<close> count converted to \<^verbatim>\<open>jint\<close>.
\<close>

definition remove_finish :: "string \<Rightarrow> nat \<Rightarrow> world \<Rightarrow> WriteBatch option \<Rightarrow> WriteBatch option \<Rightarrow>
    nat \<Rightarrow> jint \<times> WriteBatch option \<times> world" where
  "remove_finish func line w batchPtr batch removed_count =
     (if removed_count = 0 \<or> batchPtr \<noteq> None then
        (of_nat removed_count, (if batchPtr \<noteq> None then batch else None), w)
      else
        (case db_Write w (case batch of None \<Rightarrow> [] | Some b \<Rightarrow> b) of
           (s, w') \<Rightarrow>
             if \<not> ok s then
               (- 1, None, throw_new (ON_RECOVERABLE_ERROR func line (ToString s) []) w')
             else (of_nat removed_count, None, w')))"

definition dbRemoveByPrefix :: "world \<Rightarrow> WriteBatch option \<Rightarrow> string \<Rightarrow>
    jint \<times> WriteBatch option \<times> world" where
  "dbRemoveByPrefix w batchPtr prefix =
     (if prefix = [] then
        (- 1, batchPtr, throw_new (ON_ARGUMENT_ERROR (NativeBridge ''dbRemoveByPrefix'') 446
                 ''prefix.empty()'' []) w)
      else
        (case db_NewIterator w of
           (itr, w') \<Rightarrow>
             (case remove_loop prefix (Seek prefix itr) batchPtr 0 of
                (batch, removed_count) \<Rightarrow>
                  remove_finish (NativeBridge ''dbRemoveByPrefix'') 474 w' batchPtr batch
                    removed_count)))"

text \<open>
  \<^verbatim>\<open>dbRemoveByAnyPrefix\<close>. The array holds Java strings; one of length 0 is skipped, the
  others become \<^verbatim>\<open>std::string\<close>s (\<^verbatim>\<open>GetStringUTFChars\<close> is taken to succeed, and a string
  is empty exactly when its length is 0). All prefixes are scanned with the one iterator.
\<close>

fun collect_prefixes :: "string list \<Rightarrow> string list \<Rightarrow> string list" where
  "collect_prefixes [] prefixes = prefixes"
| "collect_prefixes (s # rest) prefixes =
     (if length s > 0 then collect_prefixes rest (prefixes @ [s])
      else collect_prefixes rest prefixes)"

fun remove_any_loop :: "string list \<Rightarrow> store \<Rightarrow> WriteBatch option \<Rightarrow> nat \<Rightarrow>
    WriteBatch option \<times> nat" where
  "remove_any_loop [] itr batch removed_count = (batch, removed_count)"
| "remove_any_loop (prefix # prefixes) itr batch removed_count =
     (case remove_loop prefix (Seek prefix itr) batch removed_count of
        (batch', removed_count') \<Rightarrow> remove_any_loop prefixes itr batch' removed_count')"

definition dbRemoveByAnyPrefix :: "world \<Rightarrow> WriteBatch option \<Rightarrow> string list \<Rightarrow>
    jint \<times> WriteBatch option \<times> world" where
  "dbRemoveByAnyPrefix w batchPtr jKeyPrefixes =
     (if length jKeyPrefixes = 0 then
        (- 1, batchPtr, throw_new (ON_ARGUMENT_ERROR (NativeBridge ''dbRemoveByAnyPrefix'') 483
                 ''length == 0'' []) w)
      else
        (let prefixes = collect_prefixes jKeyPrefixes [] in
         if prefixes = [] then
           (- 1, batchPtr, throw_new (ON_ARGUMENT_ERROR (NativeBridge ''dbRemoveByAnyPrefix'') 501
                    ''prefixes.empty()'' []) w)
         else
           (case db_NewIterator w of
              (itr, w') \<Rightarrow>
                (case remove_any_loop (sort prefixes) itr batchPtr 0 of
                   (batch, removed_count) \<Rightarrow>
                     remove_finish (NativeBridge ''dbRemoveByAnyPrefix'') 533 w' batchPtr batch
                       removed_count))))"

text \<open>\<^verbatim>\<open>dbContains\<close>.\<close>

definition dbContains :: "world \<Rightarrow> string \<Rightarrow> jboolean \<times> world" where
  "dbContains w key =
     (case db_NewIterator w of
        (itr, w') \<Rightarrow>
          (let found = (case Seek key itr of [] \<Rightarrow> False | (k, v) # rest \<Rightarrow> k = key) in
           if found then (JNI_TRUE, w') else (JNI_FALSE, w')))"

text \<open>
  \<^verbatim>\<open>dbBatchPerform\<close>: the result, the batch afterwards and the world.
\<close>

definition dbBatchPerform :: "world \<Rightarrow> WriteBatch \<Rightarrow> jboolean \<times> WriteBatch \<times> world" where
  "dbBatchPerform w batch =
     (case db_Write w batch of
        (s, w') \<Rightarrow>
          if \<not> ok s then
            (JNI_FALSE, batch,
             throw_new (ON_RECOVERABLE_ERROR (NativeBridge ''dbBatchPerform'') 934 (ToString s) []) w')
          else (JNI_TRUE, [], w'))"

text \<open>\<^verbatim>\<open>dbBatchRemove\<close> and the batch branch of \<^verbatim>\<open>dbPut\<close> stage an operation.\<close>

definition dbBatchRemove :: "WriteBatch \<Rightarrow> string \<Rightarrow> jboolean \<times> WriteBatch" where
  "dbBatchRemove batch key = (JNI_TRUE, batch @ [Delete key])"

definition dbPut :: "world \<Rightarrow> WriteBatch \<Rightarrow> jboolean \<Rightarrow> string \<Rightarrow> bytes \<Rightarrow>
    jboolean \<times> WriteBatch \<times> world" where
  "dbPut w batch isBatch key v =
     (if isBatch = JNI_TRUE then (JNI_TRUE, batch @ [Put key v], w)
      else
        (case db_Put w key v of
           (s, w') \<Rightarrow>
             if \<not> ok s then
               (JNI_FALSE, batch,
                throw_new (ON_RECOVERABLE_ERROR ''dbPut'' 771
                  (ToString s @ '', key:'' @ key @ '', value_size:'' @ to_string (length v)) []) w')
             else (JNI_TRUE, batch, w')))"

text \<open>
  What multi-prefix removal is to stage, in the spec's words: the prefixes sorted, one scan
  per prefix, a \<^verbatim>\<open>Delete\<close> for every key of the store that has the prefix. It is compared
  with \<^verbatim>\<open>dbRemoveByAnyPrefix\<close> below.
\<close>

definition matching :: "string \<Rightarrow> store \<Rightarrow> string list" where
  "matching p s = filter (\<lambda>k. has_prefix k p) (map fst s)"

definition spec_staged_deletes :: "string list \<Rightarrow> store \<Rightarrow> WriteBatch" where
  "spec_staged_deletes ps s = concat (map (\<lambda>p. map Delete (matching p s)) (sort ps))"

text \<open>Worlds and inputs used to run the operations on concrete data.\<close>

definition w_ab1 :: world where
  "w_ab1 = \<lparr>db = [(''ab1'', [7, 0, 0, 0]), (''b'', [])], fault = None, calls = [], thrown = []\<rparr>"

definition w_faulty :: world where
  "w_faulty = \<lparr>db = [(''ab1'', [7, 0, 0, 0]), (''b'', [])], fault = Some ''disk full'',
     calls = [], thrown = []\<rparr>"

subsection \<open>Values as bytes\<close>

text \<open>
  Modelled from the spec: \<^verbatim>\<open>jni::as<T>\<close> (of \<^verbatim>\<open>jni_utils.h\<close>, not among the sources) reads
  \<^verbatim>\<open>sizeof(T)\<close> bytes at a pointer as a value of type \<^verbatim>\<open>T\<close> in the host's byte order, which
  is little-endian on the Android ABIs. A scalar type \<^verbatim>\<open>T\<close> is a word type: \<^verbatim>\<open>jboolean\<close> and
  \<^verbatim>\<open>jbyte\<close> are 8 bits, \<^verbatim>\<open>jchar\<close> 16, \<^verbatim>\<open>jint\<close> and \<^verbatim>\<open>jsize\<close> 32, \<^verbatim>\<open>jlong\<close> 64; a \<^verbatim>\<open>jfloat\<close> and a
  \<^verbatim>\<open>jdouble\<close> stand as their 32 and 64 bits. \<open>bytes_of\<close> is the memory of a value, as in
  \<^verbatim>\<open>leveldb::Slice((const char *) &jValue, sizeof(TYPE))\<close>. Sizes and positions of type
  \<^verbatim>\<open>size_t\<close> are natural numbers: the size of a buffer that exists in memory is below the
  wrap-around. A \<^verbatim>\<open>jsize\<close> keeps its 32 bits and its sign.
\<close>

definition sizeof :: "'a::len itself \<Rightarrow> nat" where
  "sizeof t = LENGTH('a) div 8"

fun le_nat :: "bytes \<Rightarrow> nat" where
  "le_nat [] = 0"
| "le_nat (b # bs) = unat b + 256 * le_nat bs"

primrec le_bytes :: "nat \<Rightarrow> nat \<Rightarrow> bytes" where
  "le_bytes 0 x = []"
| "le_bytes (Suc n) x = of_nat (x mod 256) # le_bytes n (x div 256)"

definition jni_as :: "bytes \<Rightarrow> 'a::len word" where
  "jni_as data = of_nat (le_nat (take (sizeof TYPE('a)) data))"

definition bytes_of :: "'a::len word \<Rightarrow> bytes" where
  "bytes_of v = le_bytes (sizeof TYPE('a)) (unat v)"

text \<open>
  \<open>read_elems n data\<close> are the \<open>n\<close> elements that \<^verbatim>\<open>NewString\<close>, \<^verbatim>\<open>Set<Type>ArrayRegion\<close> and
  \<^verbatim>\<open>jni::array_set\<close> copy from \<^verbatim>\<open>data\<close>.
\<close>

primrec read_elems :: "nat \<Rightarrow> bytes \<Rightarrow> 'a::len word list" where
  "read_elems 0 data = []"
| "read_elems (Suc n) data = jni_as data # read_elems n (drop (sizeof TYPE('a)) data)"

subsection \<open>Getters\<close>

text \<open>
  The template \<^verbatim>\<open>dbParse<T>\<close> and its \<^verbatim>\<open>jstring\<close> specialisation. The second component is
  what they throw. A \<^verbatim>\<open>jstring\<close> may be the null reference (\<open>None\<close>). The C++ variable
  \<^verbatim>\<open>size\<close> is written \<open>size'\<close> throughout.
\<close>

definition dbParse :: "string \<Rightarrow> bytes \<Rightarrow> 'a::len word \<Rightarrow> jboolean \<Rightarrow> 'a word \<times> exn list" where
  "dbParse key v defaultValue throwIfError =
     (let size' = length v in
      if size' \<noteq> sizeof TYPE('a) then
        (defaultValue, [ON_VALUE_ERROR ''dbParse'' 559 (NEQ_MESSAGE size' (sizeof TYPE('a))) key])
      else (jni_as v, []))"

definition dbParse_jstring :: "string \<Rightarrow> bytes \<Rightarrow> jstring option \<Rightarrow> jboolean \<Rightarrow>
    jstring option \<times> exn list" where
  "dbParse_jstring key v defaultValue throwIfError =
     (let size' = length v in
      if size' mod sizeof TYPE(16) \<noteq> 0 then
        (defaultValue, [ON_VALUE_ERROR ''dbParse'' 572 (MODULO_MESSAGE size' (sizeof TYPE(16))) key])
      else
        (let len = (of_nat (length v div sizeof TYPE(16)) :: jsize) in
         if 0 < sint len then (Some (read_elems (nat (sint len)) v), [])
         else (Some [], [])))"

text \<open>
  The part of \<^verbatim>\<open>dbGet<T>\<close>, \<^verbatim>\<open>dbGetIntOrLong\<close> and \<^verbatim>\<open>dbGetValueSize\<close> that handles a failed
  \<^verbatim>\<open>Get\<close>.
\<close>

definition get_failed :: "string \<Rightarrow> nat \<Rightarrow> status \<Rightarrow> string \<Rightarrow> jboolean \<Rightarrow> world \<Rightarrow> world" where
  "get_failed func line s key throwIfError w =
     (let w' = (if \<not> IsNotFound s
                then throw_new (ON_RECOVERABLE_ERROR func line (ToString s @ '', key:'' @ key) []) w
                else w)
      in if throwIfError = JNI_TRUE then throw_new (Exn FileNotFoundException (ToString s)) w'
         else w')"

definition dbGet :: "world \<Rightarrow> string \<Rightarrow> 'a::len word \<Rightarrow> jboolean \<Rightarrow> 'a word \<times> world" where
  "dbGet w key defaultValue throwIfError =
     (case db_Get w key of
        (s, v, w') \<Rightarrow>
          if \<not> ok s then (defaultValue, get_failed ''dbGet'' 635 s key throwIfError w')
          else
            (case dbParse key v defaultValue throwIfError of
               (r, es) \<Rightarrow> (r, w'\<lparr>thrown := thrown w' @ es\<rparr>)))"

definition dbGetString :: "world \<Rightarrow> string \<Rightarrow> jstring option \<Rightarrow> jboolean \<Rightarrow>
    jstring option \<times> world" where
  "dbGetString w key defaultValue throwIfError =
     (case db_Get w key of
        (s, v, w') \<Rightarrow>
          if \<not> ok s then (defaultValue, get_failed ''dbGet'' 635 s key throwIfError w')
          else
            (case dbParse_jstring key v defaultValue throwIfError of
               (r, es) \<Rightarrow> (r, w'\<lparr>thrown := thrown w' @ es\<rparr>)))"

definition dbGetIntOrLong :: "world \<Rightarrow> string \<Rightarrow> jint \<Rightarrow> jboolean \<Rightarrow> jlong \<times> world" where
  "dbGetIntOrLong w key defaultValue throwIfError =
     (case db_Get w key of
        (s, v, w') \<Rightarrow>
          if \<not> ok s then
            (scast defaultValue,
             get_failed (NativeBridge ''dbGetIntOrLong'') 610 s key throwIfError w')
          else
            (let size' = length v in
             if size' = sizeof TYPE(32) then
               (case dbParse key v defaultValue throwIfError of
                  (r, es) \<Rightarrow> (scast (r :: jint), w'\<lparr>thrown := thrown w' @ es\<rparr>))
             else if size' = sizeof TYPE(64) then
               (case dbParse key v (scast defaultValue) throwIfError of
                  (r, es) \<Rightarrow> ((r :: jlong), w'\<lparr>thrown := thrown w' @ es\<rparr>))
             else
               (scast defaultValue,
                throw_new (ON_VALUE_ERROR (NativeBridge ''dbGetIntOrLong'') 623
                   (NEQ_MESSAGE size' (sizeof TYPE(64))) key) w')))"

text \<open>
  The macro \<^verbatim>\<open>DB_FUNC_CAST\<close> (\<^verbatim>\<open>dbAsBoolean\<close>, \<^verbatim>\<open>dbAsInt\<close>, \<^verbatim>\<open>dbAsLong\<close>, \<^verbatim>\<open>dbAsFloat\<close>,
  \<^verbatim>\<open>dbAsDouble\<close>), \<^verbatim>\<open>DB_FUNC_CAST_ARRAY\<close> and \<^verbatim>\<open>dbAsString\<close> read the entry an iterator stands
  on: its key and its value. \<open>NAME\<close> and \<open>line\<close> are the function's name and the line of the
  macro's use.
\<close>

definition DB_FUNC_CAST :: "string \<Rightarrow> nat \<Rightarrow> string \<times> bytes \<Rightarrow> 'a::len word \<times> exn list" where
  "DB_FUNC_CAST NAME line entry =
     (case entry of
        (key, v) \<Rightarrow>
          (let size' = length v in
           if size' \<noteq> sizeof TYPE('a) then
             (0, [ON_VALUE_ERROR (NativeBridge NAME) line (NEQ_MESSAGE size' (sizeof TYPE('a))) key])
           else (jni_as v, [])))"

text \<open>
  Modelled from the spec: \<^verbatim>\<open>jni::array_new\<close> (of \<^verbatim>\<open>jni_utils.h\<close>, not among the sources) and
  JNI's \<^verbatim>\<open>NewObjectArray\<close> make the Java array that a decoded value is returned in, of a
  \<^verbatim>\<open>jsize\<close> length. No array comes back for a negative length (the bridge then returns
  \<^verbatim>\<open>nullptr\<close> after \<^verbatim>\<open>ExceptionCheck\<close>); allocation is otherwise taken to succeed.
\<close>

definition array_new :: "jsize \<Rightarrow> 'a::len word list option" where
  "array_new len = (if sint len < 0 then None else Some (replicate (nat (sint len)) 0))"

definition NewObjectArray :: "jsize \<Rightarrow> jstring option list option" where
  "NewObjectArray size' = (if sint size' < 0 then None else Some (replicate (nat (sint size')) None))"

definition DB_FUNC_CAST_ARRAY :: "string \<Rightarrow> nat \<Rightarrow> string \<times> bytes \<Rightarrow>
    'a::len word list option \<times> exn list" where
  "DB_FUNC_CAST_ARRAY NAME line entry =
     (case entry of
        (key, v) \<Rightarrow>
          if length v mod sizeof TYPE('a) \<noteq> 0 then
            (None, [ON_VALUE_ERROR (NativeBridge NAME) line
                      (MODULO_MESSAGE (length v) (sizeof TYPE('a))) key])
          else
            (let len = (of_nat (length v div sizeof TYPE('a)) :: jsize) in
             case (array_new len :: 'a word list option) of
               None \<Rightarrow> (None, [])
             | Some result \<Rightarrow>
                 if 0 < sint len then (Some (read_elems (nat (sint len)) v), [])
                 else (Some result, [])))"

definition dbAsString :: "string \<times> bytes \<Rightarrow> jstring option \<times> exn list" where
  "dbAsString entry =
     (case entry of
        (key, v) \<Rightarrow>
          if length v mod sizeof TYPE(16) \<noteq> 0 then
            (None, [ON_VALUE_ERROR (NativeBridge ''dbAsString'') 401
                      (MODULO_MESSAGE (length v) (sizeof TYPE(16))) key])
          else
            (let len = (of_nat (length v div sizeof TYPE(16)) :: jsize) in
             if 0 < sint len then (Some (read_elems (nat (sint len)) v), [])
             else (Some [], [])))"

text \<open>The template \<^verbatim>\<open>dbParseArray<T, ARRAY_T>\<close>.\<close>

definition dbParseArray :: "string \<Rightarrow> bytes \<Rightarrow> 'a::len word list option \<times> exn list" where
  "dbParseArray key v =
     (if length v mod sizeof TYPE('a) \<noteq> 0 then
        (None, [ON_VALUE_ERROR ''dbParseArray'' 663 (MODULO_MESSAGE (length v) (sizeof TYPE('a))) key])
      else
        (let len = (of_nat (length v div sizeof TYPE('a)) :: jsize) in
         case (array_new len :: 'a word list option) of
           None \<Rightarrow> (None, [])
         | Some result \<Rightarrow>
             if 0 < sint len then (Some (read_elems (nat (sint len)) v), [])
             else (Some result, [])))"

text \<open>
  Its specialisation \<^verbatim>\<open>dbParseArray<jstring, jobjectArray>\<close>. The loop carries \<^verbatim>\<open>i\<close>,
  \<^verbatim>\<open>position\<close>, \<^verbatim>\<open>remaining\<close> and the array \<^verbatim>\<open>result\<close>, whose entries start as null
  references. It runs while \<^verbatim>\<open>i < size && remaining > 0\<close>.
\<close>

function parse_strings_loop :: "string \<Rightarrow> bytes \<Rightarrow> jsize \<Rightarrow> nat \<Rightarrow> nat \<Rightarrow> nat \<Rightarrow>
    jstring option list \<Rightarrow> jstring option list option \<times> exn list" where
  "parse_strings_loop key v size' i position remaining result =
     (if int i < sint size' \<and> 0 < remaining then
        if remaining < sizeof TYPE(32) then
          (None, [ON_VALUE_ERROR ''dbParseArray'' 702
                    (LESS_MESSAGE (to_string remaining) (to_string (sizeof TYPE(32)))) key])
        else
          (let len = (jni_as (drop position v) :: jsize);
               position' = position + sizeof TYPE(32);
               remaining' = remaining - sizeof TYPE(32)
           in
             if sint len < 0 then
               (None, [ON_VALUE_ERROR ''dbParseArray'' 710
                         (LESS_MESSAGE (to_string_int (sint len)) (to_string 0)) key])
             else if remaining' < nat (sint len) * sizeof TYPE(16) then
               (None, [ON_VALUE_ERROR ''dbParseArray'' 714
                         (to_string remaining' @ '' < ('' @ to_string_int (sint len) @ '' * '' @
                          to_string (sizeof TYPE(16)) @ '')'') key])
             else
               (let string = (if 0 < sint len then read_elems (nat (sint len)) (drop position' v)
                              else [])
                in parse_strings_loop key v size' (i + 1)
                     (position' + nat (sint len) * sizeof TYPE(16))
                     (remaining' - nat (sint len) * sizeof TYPE(16))
                     (result[i := Some string])))
      else (Some result, []))"
  by pat_completeness auto
termination
  by (relation "measure (\<lambda>(key, v, size', i, position, remaining, result). nat (sint size') - i)")
    auto

declare parse_strings_loop.simps [simp del]

definition dbParseArray_jstring :: "string \<Rightarrow> bytes \<Rightarrow> jstring option list option \<times> exn list" where
  "dbParseArray_jstring key v =
     (if length v < sizeof TYPE(32) then
        (None, [ON_VALUE_ERROR ''dbParseArray'' 680
                  (LESS_MESSAGE (to_string (length v)) (to_string (sizeof TYPE(32)))) key])
      else
        (let position = 0; remaining = length v in
         if remaining < sizeof TYPE(32) then
           (None, [ON_VALUE_ERROR ''dbParseArray'' 686
                     (LESS_MESSAGE (to_string remaining) (to_string (sizeof TYPE(32)))) []])
         else
           (let size' = (jni_as v :: jsize);
                position' = position + sizeof TYPE(32);
                remaining' = remaining - sizeof TYPE(32)
            in case NewObjectArray size' of
                 None \<Rightarrow> (None, [])
               | Some result \<Rightarrow> parse_strings_loop key v size' 0 position' remaining' result)))"

subsection \<open>Setters\<close>

text \<open>
  The byte strings the setters hand to \<^verbatim>\<open>dbPut\<close>. \<^verbatim>\<open>GetArrayLength\<close> and \<^verbatim>\<open>GetStringLength\<close>
  return the length as a \<^verbatim>\<open>jsize\<close>. \<open>put_value\<close> is the slice of \<^verbatim>\<open>DB_FUNC_PUT\<close>, \<open>put_void\<close>
  that of \<^verbatim>\<open>dbPutVoid\<close>, \<open>put_string\<close> that of \<^verbatim>\<open>dbPutString\<close>, \<open>put_array\<close> that of
  \<^verbatim>\<open>dbPutArray\<close> and \<^verbatim>\<open>DB_FUNC_PUT_ARRAY\<close>.
\<close>

definition put_value :: "'a::len word \<Rightarrow> bytes" where
  "put_value jValue = bytes_of jValue"

definition put_void :: bytes where
  "put_void = []"

definition put_string :: "jstring \<Rightarrow> bytes" where
  "put_string jValue =
     (let len = (of_nat (length jValue) :: jsize) in
      if 0 < sint len then take (nat (sint len) * sizeof TYPE(16)) (concat (map bytes_of jValue))
      else [])"

definition put_array :: "'a::len word list \<Rightarrow> bytes" where
  "put_array jValue =
     (let len = (of_nat (length jValue) :: jsize) in
      if 0 < sint len then take (nat (sint len) * sizeof TYPE('a)) (concat (map bytes_of jValue))
      else [])"

text \<open>
  \<^verbatim>\<open>dbPutStringArray\<close>: the first loop sums the buffer size, the second fills the buffer
  behind the count; the slice is the buffer in that size.
\<close>

fun buffer_size_loop :: "jstring list \<Rightarrow> nat \<Rightarrow> nat" where
  "buffer_size_loop [] buffer_size = buffer_size"
| "buffer_size_loop (string # rest) buffer_size =
     buffer_size_loop rest
       (buffer_size + (sizeof TYPE(32) + nat (sint (of_nat (length string) :: jsize)) * sizeof TYPE(16)))"

fun fill_loop :: "jstring list \<Rightarrow> bytes \<Rightarrow> bytes" where
  "fill_loop [] buffer = buffer"
| "fill_loop (string # rest) buffer =
     (let stringLength = (of_nat (length string) :: jsize) in
      fill_loop rest
        (buffer @ bytes_of stringLength @
         (if 0 < sint stringLength
          then take (nat (sint stringLength) * sizeof TYPE(16)) (concat (map bytes_of string))
          else [])))"

definition put_string_array :: "jstring list \<Rightarrow> bytes" where
  "put_string_array jValue =
     (let len = (of_nat (length jValue) :: jsize);
          buffer_size = buffer_size_loop jValue (sizeof TYPE(32));
          buffer = fill_loop jValue (bytes_of len)
      in take buffer_size buffer)"

text \<open>
  The setters themselves. \<^verbatim>\<open>DB_FUNC_PUT\<close>, \<^verbatim>\<open>dbPutVoid\<close> and \<^verbatim>\<open>dbPutString\<close> go through
  \<^verbatim>\<open>dbPut\<close>; \<^verbatim>\<open>DB_FUNC_PUT_ARRAY\<close> and \<^verbatim>\<open>dbPutStringArray\<close> stage or write on their own.
  Getting the elements of a Java array or string is taken to succeed.
\<close>

definition DB_FUNC_PUT :: "world \<Rightarrow> WriteBatch \<Rightarrow> jboolean \<Rightarrow> string \<Rightarrow> 'a::len word \<Rightarrow>
    jboolean \<times> WriteBatch \<times> world" where
  "DB_FUNC_PUT w batch isBatch key jValue = dbPut w batch isBatch key (put_value jValue)"

definition dbPutVoid :: "world \<Rightarrow> WriteBatch \<Rightarrow> jboolean \<Rightarrow> string \<Rightarrow>
    jboolean \<times> WriteBatch \<times> world" where
  "dbPutVoid w batch isBatch key = dbPut w batch isBatch key put_void"

definition dbPutString :: "world \<Rightarrow> WriteBatch \<Rightarrow> jboolean \<Rightarrow> string \<Rightarrow> jstring \<Rightarrow>
    jboolean \<times> WriteBatch \<times> world" where
  "dbPutString w batch isBatch key jValue = dbPut w batch isBatch key (put_string jValue)"

definition DB_FUNC_PUT_ARRAY :: "string \<Rightarrow> nat \<Rightarrow> world \<Rightarrow> WriteBatch \<Rightarrow> jboolean \<Rightarrow> string \<Rightarrow>
    'a::len word list \<Rightarrow> jboolean \<times> WriteBatch \<times> world" where
  "DB_FUNC_PUT_ARRAY NAME line w batch isBatch key jValue =
     (let v = put_array jValue in
      if isBatch = JNI_TRUE then (JNI_TRUE, batch @ [Put key v], w)
      else
        (case db_Put w key v of
           (s, w') \<Rightarrow>
             if \<not> ok s then
               (JNI_FALSE, batch,
                throw_new (ON_RECOVERABLE_ERROR (NativeBridge NAME) line
                  (ToString s @ '', key:'' @ key) []) w')
             else (JNI_TRUE, batch, w')))"

definition dbPutStringArray :: "world \<Rightarrow> WriteBatch \<Rightarrow> jboolean \<Rightarrow> string \<Rightarrow> jstring list \<Rightarrow>
    jboolean \<times> WriteBatch \<times> world" where
  "dbPutStringArray w batch isBatch key jValue =
     (let v = put_string_array jValue in
      if isBatch = JNI_TRUE then (JNI_TRUE, batch @ [Put key v], w)
      else
        (case db_Put w key v of
           (s, w') \<Rightarrow>
             if \<not> ok s then
               (JNI_FALSE, batch,
                throw_new (ON_RECOVERABLE_ERROR (NativeBridge ''dbPutStringArray'') 915
                  (ToString s @ '', key:'' @ key @ '', buffer_size:'' @
                   to_string (buffer_size_loop jValue (sizeof TYPE(32)))) []) w')
             else (JNI_TRUE, batch, w')))"

text \<open>
  The \<^verbatim>\<open>TextArray\<close> layout in the spec's words: a 32-bit count, then for each string its
  32-bit length in code units and the code units. It is compared with \<^verbatim>\<open>dbPutStringArray\<close>
  and read back by \<^verbatim>\<open>dbParseArray<jstring, jobjectArray>\<close> below.
\<close>

definition spec_string_layout :: "jstring \<Rightarrow> bytes" where
  "spec_string_layout s = bytes_of (of_nat (length s) :: jsize) @ concat (map bytes_of s)"

definition spec_text_array_layout :: "jsize \<Rightarrow> jstring list \<Rightarrow> bytes" where
  "spec_text_array_layout count ss = bytes_of count @ concat (map spec_string_layout ss)"

text \<open>Values used to run the codec on concrete data: \<^verbatim>\<open>"hi"\<close> and \<^verbatim>\<open>"a"\<close> as code units.\<close>

definition str_hi :: jstring where "str_hi = [104, 105]"
definition str_a :: jstring where "str_a = [97]"

definition w_nums :: world where
  "w_nums = \<lparr>db = [(''i'', [255, 255, 255, 255]), (''l'', [1, 0, 0, 0, 0, 0, 0, 128]),
     (''x'', [1, 2, 3])], fault = None, calls = [], thrown = []\<rparr>"

section \<open>Properties\<close>

subsection \<open>Evaluation of the error texts\<close>

lemma to_string_small: "n < 10 \<Longrightarrow> to_string n = [digit_char n]"
  by (subst to_string.simps) simp

lemma to_string_big: "10 \<le> n \<Longrightarrow> to_string n = to_string (n div 10) @ [digit_char (n mod 10)]"
  by (subst to_string.simps) simp

lemmas to_string_eval = to_string_small to_string_big digit_char_def

subsection \<open>The open and recovery protocol\<close>

lemma open_loop_retry:
  "try_again (opens n) \<Longrightarrow> n < 50 \<Longrightarrow>
   open_loop opens n = (Open # Usleep 100000 # fst (open_loop opens (n + 1)), snd (open_loop opens (n + 1)))"
  by (subst open_loop.simps) (simp add: Let_def split: prod.splits)

lemma open_loop_break:
  "\<not> try_again (opens n) \<Longrightarrow> open_loop opens n = ([Open], Break (opens n) n)"
  by (subst open_loop.simps) (simp add: Let_def)

lemma open_loop_abort:
  "try_again (opens n) \<Longrightarrow> 50 \<le> n \<Longrightarrow> open_loop opens n = ([Open], Abort (opens n) (100 * n))"
  by (subst open_loop.simps) (simp add: Let_def)

lemma open_loop_breaks_after:
  "(\<forall>i. n \<le> i \<and> i < n + k \<longrightarrow> try_again (opens i)) \<Longrightarrow> n + k \<le> 50 \<Longrightarrow>
   \<not> try_again (opens (n + k)) \<Longrightarrow>
   open_loop opens n = (concat (replicate k [Open, Usleep 100000]) @ [Open], Break (opens (n + k)) (n + k))"
proof (induction k arbitrary: n)
  case 0
  then show ?case by (simp add: open_loop_break)
next
  case (Suc k)
  have t: "try_again (opens n)" using Suc.prems(1) by simp
  have "open_loop opens (n + 1) = (concat (replicate k [Open, Usleep 100000]) @ [Open], Break (opens (n + 1 + k)) (n + 1 + k))"
    using Suc.prems by (intro Suc.IH) auto
  then show ?case using t Suc.prems(2) by (simp add: open_loop_retry)
qed

lemma open_loop_aborts_after:
  "(\<forall>i. n \<le> i \<and> i \<le> n + k \<longrightarrow> try_again (opens i)) \<Longrightarrow> n + k = 50 \<Longrightarrow>
   open_loop opens n = (concat (replicate k [Open, Usleep 100000]) @ [Open], Abort (opens 50) 5000)"
proof (induction k arbitrary: n)
  case 0
  then show ?case by (simp add: open_loop_abort)
next
  case (Suc k)
  have t: "try_again (opens n)" using Suc.prems(1) by simp
  have "open_loop opens (n + 1) = (concat (replicate k [Open, Usleep 100000]) @ [Open], Abort (opens 50) 5000)"
    using Suc.prems by (intro Suc.IH) auto
  then show ?case using t Suc.prems(2) by (simp add: open_loop_retry)
qed

lemma try_again_busy: "try_again st_busy" by (simp add: try_again_def st_busy_def)
lemma try_again_ok: "\<not> try_again st_ok" by (simp add: try_again_def st_ok_def)
lemma try_again_corrupt: "\<not> try_again st_corrupt" by (simp add: try_again_def st_corrupt_def)
lemma try_again_io: "\<not> try_again st_io" by (simp add: try_again_def st_io_def)

lemma sleeps_append: "sleeps (xs @ ys) = sleeps xs @ sleeps ys"
  by (induction xs rule: sleeps.induct) simp_all

lemma sleeps_retries: "sleeps (concat (replicate k [Open, Usleep t])) = replicate k t"
  by (induction k) simp_all

text \<open>
  Claim C1, as amended. While the engine answers \<^verbatim>\<open>DB::Open\<close> with the transient
  "Try again" I/O error, \<^verbatim>\<open>dbOpen\<close> sleeps a constant 100000 microseconds and opens again,
  counting the attempts. If the first \<open>k \<le> 50\<close> answers are transient and the next one is
  not, the loop has made \<open>k + 1\<close> calls and \<open>k\<close> sleeps of 100 ms each and leaves with
  that status. If the first 51 answers are all transient, then after 50 sleeps (5000 ms in
  total) the 51st failure is reported as fatal with \<^verbatim>\<open>total_wait: 5000ms\<close> and \<^verbatim>\<open>dbOpen\<close>
  returns 0, without repairing and without another attempt.
\<close>

theorem dbOpen_retry_constant_wait:
  "(\<forall>i<k. try_again (opens i)) \<Longrightarrow>
   (k \<le> 50 \<and> \<not> try_again (opens k) \<longrightarrow>
      open_loop opens 0 = (concat (replicate k [Open, Usleep 100000]) @ [Open], Break (opens k) k)) \<and>
   (50 < k \<longrightarrow>
      dbOpen has_mid opens repair =
        (None, concat (replicate 50 [Open, Usleep 100000]) @ [Open] @
           onFatalError has_mid
             (makeErrorText (ERROR_PREFIX (NativeBridge ''dbOpen'') 126)
                (ToString (opens 50) @ '', total_wait: 5000ms'') [])))"
proof (intro conjI impI)
  assume a: "\<forall>i<k. try_again (opens i)" and b: "k \<le> 50 \<and> \<not> try_again (opens k)"
  show "open_loop opens 0 = (concat (replicate k [Open, Usleep 100000]) @ [Open], Break (opens k) k)"
    using open_loop_breaks_after [of 0 k opens] a b by simp
next
  assume a: "\<forall>i<k. try_again (opens i)" and b: "50 < k"
  have "open_loop opens 0 = (concat (replicate 50 [Open, Usleep 100000]) @ [Open], Abort (opens 50) 5000)"
    using open_loop_aborts_after [of 0 50 opens] a b by simp
  then show "dbOpen has_mid opens repair =
        (None, concat (replicate 50 [Open, Usleep 100000]) @ [Open] @
           onFatalError has_mid
             (makeErrorText (ERROR_PREFIX (NativeBridge ''dbOpen'') 126)
                (ToString (opens 50) @ '', total_wait: 5000ms'') []))"
    by (simp add: dbOpen_def to_string_eval)
qed

theorem dbOpen_retry_constant_wait_witness:
  "try_again (busy_then 2 st_ok 0) \<and> try_again (busy_then 2 st_ok 1) \<and>
   \<not> try_again (busy_then 2 st_ok 2) \<and>
   open_loop (busy_then 2 st_ok) 0 = ([Open, Usleep 100000, Open, Usleep 100000, Open], Break st_ok 2) \<and>
   try_again (busy_then 51 st_ok 0) \<and> try_again (busy_then 51 st_ok 50) \<and>
   fst (dbOpen True (busy_then 51 st_ok) st_ok) = None \<and>
   sleeps (snd (dbOpen True (busy_then 51 st_ok) st_ok)) = replicate 50 100000 \<and>
   last (snd (dbOpen True (busy_then 51 st_ok) st_ok)) =
     FatalHook ''Java_me_vkryl_leveldb_NativeBridge_dbOpen:126: IO error: lock /db/LOCK: Try again, total_wait: 5000ms''"
proof -
  have h2: "\<forall>i<2. try_again (busy_then 2 st_ok i)"
    by (simp add: busy_then_def try_again_busy)
  have n2: "\<not> try_again (busy_then 2 st_ok 2)"
    by (simp add: busy_then_def try_again_ok)
  have h51: "\<forall>i<51. try_again (busy_then 51 st_ok i)"
    by (simp add: busy_then_def try_again_busy)
  have r2: "open_loop (busy_then 2 st_ok) 0 = ([Open, Usleep 100000, Open, Usleep 100000, Open], Break st_ok 2)"
    using dbOpen_retry_constant_wait [of 2 "busy_then 2 st_ok" True st_ok] h2 n2
    by (simp add: busy_then_def numeral_2_eq_2)
  have r51: "dbOpen True (busy_then 51 st_ok) st_ok =
        (None, concat (replicate 50 [Open, Usleep 100000]) @ [Open] @
           onFatalError True
             (makeErrorText (ERROR_PREFIX (NativeBridge ''dbOpen'') 126)
                (ToString (busy_then 51 st_ok 50) @ '', total_wait: 5000ms'') []))"
    using dbOpen_retry_constant_wait [of 51 "busy_then 51 st_ok" True st_ok] h51 by simp
  have s51: "sleeps (snd (dbOpen True (busy_then 51 st_ok) st_ok)) = replicate 50 100000"
    by (simp add: r51 sleeps_append sleeps_retries onFatalError_def)
  have l51: "last (snd (dbOpen True (busy_then 51 st_ok) st_ok)) =
     FatalHook ''Java_me_vkryl_leveldb_NativeBridge_dbOpen:126: IO error: lock /db/LOCK: Try again, total_wait: 5000ms''"
    by (simp add: r51 onFatalError_def makeErrorText_def ERROR_PREFIX_def NativeBridge_def
        to_string_eval busy_then_def st_busy_def)
  show ?thesis using h2 n2 r2 h51 r51 s51 l51 by simp
qed

text \<open>
  Claim C1 as stated fails: with two transient answers followed by success, both waits are
  100 ms. The second wait is not 200 ms, whether the attempt number starts at 0 or at 1.
\<close>

theorem dbOpen_linear_backoff_counterexample:
  "sleeps (snd (dbOpen True (busy_then 2 st_ok) st_ok)) = [100000, 100000] \<and>
   sleeps (snd (dbOpen True (busy_then 2 st_ok) st_ok)) \<noteq> [100000 * 1, 100000 * 2] \<and>
   sleeps (snd (dbOpen True (busy_then 2 st_ok) st_ok)) \<noteq> [100000 * 0, 100000 * 1]"
proof -
  have "open_loop (busy_then 2 st_ok) 0 = ([Open, Usleep 100000, Open, Usleep 100000, Open], Break st_ok 2)"
    using open_loop_breaks_after [of 0 2 "busy_then 2 st_ok"]
    by (simp add: busy_then_def try_again_busy try_again_ok numeral_2_eq_2)
  then have "dbOpen True (busy_then 2 st_ok) st_ok = (Some 2, [Open, Usleep 100000, Open, Usleep 100000, Open])"
    by (simp add: dbOpen_def st_ok_def)
  then show ?thesis by simp
qed

text \<open>
  Claim C7, as amended. When the first \<^verbatim>\<open>DB::Open\<close> fails and the failure is not the
  transient one, \<^verbatim>\<open>dbOpen\<close> calls \<^verbatim>\<open>RepairDB\<close> exactly once. If the repair fails there is
  no further \<^verbatim>\<open>DB::Open\<close>: the original error goes to the fatal-error hook and the result
  is 0. If the repair succeeds there is exactly one more \<^verbatim>\<open>DB::Open\<close>; when it fails its
  error goes to the hook and the result is 0, when it succeeds its handle is returned.
  In no case does anything follow. (The hook is the Java method \<^verbatim>\<open>onFatalError\<close>, here
  present.)
\<close>

theorem dbOpen_structural_failure:
  "\<not> ok (opens 0) \<Longrightarrow> \<not> try_again (opens 0) \<Longrightarrow>
   dbOpen True opens repair =
     (if \<not> ok repair then
        (None, [Open, Repair, FatalHook (makeErrorText (ERROR_PREFIX (NativeBridge ''dbOpen'') 150)
                  (ToString (opens 0)) [])])
      else if \<not> ok (opens 1) then
        (None, [Open, Repair, Open, FatalHook (makeErrorText (ERROR_PREFIX (NativeBridge ''dbOpen'') 150)
                  (ToString (opens 1)) [])])
      else (Some 1, [Open, Repair, Open]))"
  by (simp add: dbOpen_def open_loop_break onFatalError_def Let_def)

theorem dbOpen_structural_failure_witness:
  "\<not> ok (corrupt_then st_ok 0) \<and> \<not> try_again (corrupt_then st_ok 0) \<and>
   dbOpen True (corrupt_then st_ok) st_ok = (Some 1, [Open, Repair, Open]) \<and>
   dbOpen True (corrupt_then st_io) st_ok =
     (None, [Open, Repair, Open, FatalHook ''Java_me_vkryl_leveldb_NativeBridge_dbOpen:150: IO error: disk full'']) \<and>
   dbOpen True (corrupt_then st_ok) st_corrupt =
     (None, [Open, Repair, FatalHook ''Java_me_vkryl_leveldb_NativeBridge_dbOpen:150: Corruption: bad manifest''])"
proof -
  have a: "\<not> ok (corrupt_then st 0)" for st by (simp add: corrupt_then_def st_corrupt_def)
  have b: "\<not> try_again (corrupt_then st 0)" for st by (simp add: corrupt_then_def try_again_corrupt)
  show ?thesis
    using a [of st_ok] b [of st_ok]
      dbOpen_structural_failure [of "corrupt_then st_ok" st_ok]
      dbOpen_structural_failure [of "corrupt_then st_io" st_ok] a [of st_io] b [of st_io]
      dbOpen_structural_failure [of "corrupt_then st_ok" st_corrupt]
    by (simp add: st_corrupt_def corrupt_then_def st_ok_def st_io_def makeErrorText_def ERROR_PREFIX_def
        NativeBridge_def to_string_eval)
qed

text \<open>
  Claim C7 as stated fails where the repair itself fails: the run then holds the first
  \<^verbatim>\<open>DB::Open\<close>, one \<^verbatim>\<open>RepairDB\<close> and the hook, and no reopen at all.
\<close>

theorem dbOpen_reopen_after_failed_repair_counterexample:
  "dbOpen True (corrupt_then st_ok) st_io =
     (None, [Open, Repair, FatalHook ''Java_me_vkryl_leveldb_NativeBridge_dbOpen:150: Corruption: bad manifest'']) \<and>
   count_list (snd (dbOpen True (corrupt_then st_ok) st_io)) Repair = 1 \<and>
   count_list (snd (dbOpen True (corrupt_then st_ok) st_io)) Open = 1"
proof -
  have "dbOpen True (corrupt_then st_ok) st_io =
     (None, [Open, Repair, FatalHook ''Java_me_vkryl_leveldb_NativeBridge_dbOpen:150: Corruption: bad manifest''])"
  proof -
    have "open_loop (corrupt_then st_ok) 0 = ([Open], Break st_corrupt 0)"
      by (simp add: open_loop_break corrupt_then_def try_again_corrupt)
    then show ?thesis
      by (simp add: dbOpen_def onFatalError_def st_corrupt_def st_io_def makeErrorText_def
          ERROR_PREFIX_def NativeBridge_def to_string_eval)
  qed
  then show ?thesis by simp
qed

subsection \<open>Removal by several prefixes\<close>

lemma has_prefix_le: "has_prefix k p \<Longrightarrow> p \<le> k"
proof (induction p arbitrary: k)
  case Nil
  then show ?case by simp
next
  case (Cons a p)
  then show ?case by (cases k) (auto simp: has_prefix_def)
qed

lemma has_prefix_between:
  "p \<le> k \<Longrightarrow> k \<le> k' \<Longrightarrow> has_prefix k' p \<Longrightarrow> has_prefix k p"
proof (induction p arbitrary: k k')
  case Nil
  then show ?case by (simp add: has_prefix_def)
next
  case (Cons a p)
  from Cons.prems(3) obtain r' where k': "k' = a # r'" and hp: "has_prefix r' p"
    by (cases k') (auto simp: has_prefix_def)
  from Cons.prems(1) obtain b r where k: "k = b # r"
    by (cases k) auto
  from Cons.prems(1) k have 1: "a < b \<or> (a = b \<and> p \<le> r)" by auto
  from Cons.prems(2) k k' have 2: "b < a \<or> (b = a \<and> r \<le> r')" by auto
  from 1 2 have ab: "a = b" and pr: "p \<le> r" and rr: "r \<le> r'" by auto
  from Cons.IH [OF pr rr hp] have "has_prefix r p" .
  then show ?case using k ab by (simp add: has_prefix_def)
qed

lemma takeWhile_filter_sorted:
  "sorted (map fst s) \<Longrightarrow> \<forall>k\<in>set (map fst s). p \<le> k \<Longrightarrow>
   map fst (takeWhile (\<lambda>(k, v). has_prefix k p) s) = filter (\<lambda>k. has_prefix k p) (map fst s)"
proof (induction s)
  case Nil
  then show ?case by simp
next
  case (Cons x s)
  obtain k v where x: "x = (k, v)" by (cases x)
  show ?case
  proof (cases "has_prefix k p")
    case True
    then show ?thesis using Cons x by simp
  next
    case False
    have "\<not> has_prefix k' p" if "k' \<in> set (map fst s)" for k'
    proof
      assume h: "has_prefix k' p"
      have "k \<le> k'" using Cons.prems(1) that x by auto
      moreover have "p \<le> k" using Cons.prems(2) x by simp
      ultimately have "has_prefix k p" using h has_prefix_between by blast
      then show False using False by simp
    qed
    then have "filter (\<lambda>k. has_prefix k p) (map fst s) = []"
      by (simp add: filter_empty_conv)
    then show ?thesis using False x by simp
  qed
qed

lemma scan_matching:
  assumes "sorted (map fst s)"
  shows "map fst (takeWhile (\<lambda>(k, v). has_prefix k p) (Seek p s)) = matching p s"
  using assms
proof (induction s)
  case Nil
  then show ?case by (simp add: Seek_def matching_def)
next
  case (Cons x s)
  obtain k v where x: "x = (k, v)" by (cases x)
  show ?case
  proof (cases "k < p")
    case True
    then have "\<not> has_prefix k p" using has_prefix_le [of k p] by auto
    then show ?thesis using Cons True x by (simp add: Seek_def matching_def)
  next
    case False
    then have pk: "p \<le> k" by simp
    have all: "\<forall>k'\<in>set (map fst (x # s)). p \<le> k'"
      using Cons.prems pk x by auto
    have "Seek p (x # s) = x # s" using False x by (simp add: Seek_def)
    then show ?thesis
      using takeWhile_filter_sorted [OF Cons.prems all] by (simp add: matching_def)
  qed
qed

lemma remove_loop_eq:
  "remove_loop p it batch n =
     (if takeWhile (\<lambda>(k, v). has_prefix k p) it = [] then batch
      else Some ((case batch of None \<Rightarrow> [] | Some b \<Rightarrow> b) @
                 map Delete (map fst (takeWhile (\<lambda>(k, v). has_prefix k p) it))),
      n + length (takeWhile (\<lambda>(k, v). has_prefix k p) it))"
proof (induction it arbitrary: batch n)
  case Nil
  then show ?case by simp
next
  case (Cons x it)
  obtain k v where x: "x = (k, v)" by (cases x)
  show ?case using Cons [of "Some ((case batch of None \<Rightarrow> [] | Some b \<Rightarrow> b) @ [Delete k])" "n + 1"] x
    by (simp split: option.splits)
qed

lemma remove_loop_sorted:
  "sorted (map fst s) \<Longrightarrow>
   remove_loop p (Seek p s) batch n =
     (if matching p s = [] then batch
      else Some ((case batch of None \<Rightarrow> [] | Some b \<Rightarrow> b) @ map Delete (matching p s)),
      n + length (matching p s))"
  using scan_matching [of s p] 
  by (simp add: remove_loop_eq flip: length_map [of fst "takeWhile (\<lambda>(k, v). has_prefix k p) (Seek p s)"]) (metis map_is_Nil_conv)

lemma remove_any_loop_sorted:
  "sorted (map fst s) \<Longrightarrow>
   remove_any_loop ps s batch n =
     (if concat (map (\<lambda>p. map Delete (matching p s)) ps) = [] then batch
      else Some ((case batch of None \<Rightarrow> [] | Some b \<Rightarrow> b) @
                 concat (map (\<lambda>p. map Delete (matching p s)) ps)),
      n + length (concat (map (\<lambda>p. map Delete (matching p s)) ps)))"
proof (induction ps arbitrary: batch n)
  case Nil
  then show ?case by simp
next
  case (Cons p ps)
  show ?case
    by (simp add: remove_loop_sorted [OF Cons.prems] Cons.IH [OF Cons.prems] split: option.splits)
qed


lemma sum_list_insort:
  "sum_list (map g (insort x xs)) = (g x :: nat) + sum_list (map g xs)"
  by (induction xs) simp_all

lemma sum_list_sort: "sum_list (map g (sort xs)) = (sum_list (map g xs) :: nat)"
  by (induction xs) (simp_all add: sum_list_insort)

lemma count_list_append: "count_list (xs @ ys) x = count_list xs x + count_list ys x"
  by (induction xs) simp_all

lemma count_list_concat:
  "count_list (concat (map f ps)) x = sum_list (map (\<lambda>p. count_list (f p) x) ps)"
  by (induction ps) (simp_all add: count_list_append)

lemma count_list_Delete:
  "distinct ks \<Longrightarrow>
   count_list (map Delete (filter P ks)) (Delete k) = (if k \<in> set ks \<and> P k then 1 else 0)"
  by (induction ks) auto

lemma sum_list_indicator:
  "sum_list (map (\<lambda>p. if P p then 1 else 0) ps) = length (filter P ps)"
  by (induction ps) simp_all

lemma staged_count:
  assumes "distinct (map fst s)" and "k \<in> set (map fst s)"
  shows "count_list (spec_staged_deletes ps s) (Delete k) = length (filter (\<lambda>p. has_prefix k p) ps)"
proof -
  have "count_list (spec_staged_deletes ps s) (Delete k) =
        sum_list (map (\<lambda>p. count_list (map Delete (matching p s)) (Delete k)) (sort ps))"
    by (simp add: spec_staged_deletes_def count_list_concat)
  also have "\<dots> = sum_list (map (\<lambda>p. count_list (map Delete (matching p s)) (Delete k)) ps)"
    by (rule sum_list_sort)
  also have "\<dots> = sum_list (map (\<lambda>p. if has_prefix k p then 1 else 0) ps)"
    using assms by (simp add: matching_def count_list_Delete)
  also have "\<dots> = length (filter (\<lambda>p. has_prefix k p) ps)"
    by (rule sum_list_indicator)
  finally show ?thesis .
qed

lemma store_delete_filter: "store_delete k s = filter (\<lambda>(k', v). k' \<noteq> k) s"
  by (induction s) auto

lemma apply_deletes_filter:
  "apply_batch (map Delete ks) s = filter (\<lambda>(k, v). k \<notin> set ks) s"
proof (induction ks arbitrary: s)
  case Nil
  then show ?case by (simp add: apply_batch_def)
next
  case (Cons k ks)
  have "apply_batch (map Delete (k # ks)) s = apply_batch (map Delete ks) (store_delete k s)"
    by (simp add: apply_batch_def)
  also have "\<dots> = filter (\<lambda>(k', v). k' \<notin> set ks) (filter (\<lambda>(k', v). k' \<noteq> k) s)"
    by (simp add: Cons.IH store_delete_filter)
  also have "\<dots> = filter (\<lambda>(k', v). k' \<notin> set (k # ks)) s"
    by (auto intro: filter_cong)
  finally show ?case .
qed

lemma staged_deletes_keys:
  "\<exists>ks. spec_staged_deletes ps s = map Delete ks \<and>
        set ks = {k \<in> set (map fst s). \<exists>p\<in>set ps. has_prefix k p}"
proof -
  have "spec_staged_deletes ps s = map Delete (concat (map (\<lambda>p. matching p s) (sort ps)))"
    by (simp add: spec_staged_deletes_def map_concat comp_def)
  moreover have "set (concat (map (\<lambda>p. matching p s) (sort ps))) =
        {k \<in> set (map fst s). \<exists>p\<in>set ps. has_prefix k p}"
    by (auto simp: matching_def)
  ultimately show ?thesis by blast
qed

lemma apply_staged_deletes:
  "apply_batch (spec_staged_deletes ps s) s = filter (\<lambda>(k, v). \<not> (\<exists>p\<in>set ps. has_prefix k p)) s"
proof -
  obtain ks where ks: "spec_staged_deletes ps s = map Delete ks"
    and set: "set ks = {k \<in> set (map fst s). \<exists>p\<in>set ps. has_prefix k p}"
    using staged_deletes_keys by blast
  have "apply_batch (spec_staged_deletes ps s) s = filter (\<lambda>(k, v). k \<notin> set ks) s"
    by (simp add: ks apply_deletes_filter)
  also have "\<dots> = filter (\<lambda>(k, v). \<not> (\<exists>p\<in>set ps. has_prefix k p)) s"
    by (rule filter_cong) (force simp: set)+
  finally show ?thesis .
qed

lemma collect_prefixes_filter: "collect_prefixes ss acc = acc @ filter (\<lambda>s. s \<noteq> []) ss"
  by (induction ss arbitrary: acc) simp_all

lemma dbRemoveByAnyPrefix_sorted:
  assumes "sorted (map fst (db w))" and "filter (\<lambda>s. s \<noteq> []) jKeyPrefixes \<noteq> []"
  shows "dbRemoveByAnyPrefix w batchPtr jKeyPrefixes =
     remove_finish (NativeBridge ''dbRemoveByAnyPrefix'') 533 (called NewIterator w) batchPtr
       (if spec_staged_deletes (filter (\<lambda>s. s \<noteq> []) jKeyPrefixes) (db w) = [] then batchPtr
        else Some ((case batchPtr of None \<Rightarrow> [] | Some b \<Rightarrow> b) @
                   spec_staged_deletes (filter (\<lambda>s. s \<noteq> []) jKeyPrefixes) (db w)))
       (length (spec_staged_deletes (filter (\<lambda>s. s \<noteq> []) jKeyPrefixes) (db w)))"
proof -
  have ne: "length jKeyPrefixes \<noteq> 0" using assms(2) by auto
  have loop: "remove_any_loop (sort (filter (\<lambda>s. s \<noteq> []) jKeyPrefixes)) (db w) batchPtr 0 =
     (if spec_staged_deletes (filter (\<lambda>s. s \<noteq> []) jKeyPrefixes) (db w) = [] then batchPtr
      else Some ((case batchPtr of None \<Rightarrow> [] | Some b \<Rightarrow> b) @
                 spec_staged_deletes (filter (\<lambda>s. s \<noteq> []) jKeyPrefixes) (db w)),
      length (spec_staged_deletes (filter (\<lambda>s. s \<noteq> []) jKeyPrefixes) (db w)))"
    unfolding spec_staged_deletes_def
    by (subst remove_any_loop_sorted [OF assms(1)]) simp
  show ?thesis
    unfolding dbRemoveByAnyPrefix_def Let_def collect_prefixes_filter db_NewIterator_def
    using assms(2) ne by (simp only: if_False append_Nil loop prod.case)
qed


text \<open>
  Claim C3. Let the store be in key order, the engine healthy, and \<open>ps\<close> the non-empty
  prefixes handed to \<^verbatim>\<open>dbRemoveByAnyPrefix\<close>. The operation stages exactly the deletes of the
  spec's description (prefixes sorted, one scan per prefix, a \<^verbatim>\<open>Delete\<close> per matching key):
  appended to the caller's batch when there is one, written at once when there is none.
  The returned count is the number of staged deletes. A key of the store is staged once
  for every prefix that matches it, so a key under two of the prefixes is staged twice and
  counted twice, while the write removes each matched key from the store once.
\<close>

theorem remove_by_any_prefix_overcount:
  "sorted (map fst (db w)) \<Longrightarrow> distinct (map fst (db w)) \<Longrightarrow> fault w = None \<Longrightarrow>
   ps = filter (\<lambda>s. s \<noteq> []) jKeyPrefixes \<Longrightarrow> ps \<noteq> [] \<Longrightarrow>
   dels = spec_staged_deletes ps (db w) \<Longrightarrow>
   dbRemoveByAnyPrefix w (Some b) jKeyPrefixes =
     (of_nat (length dels), Some (b @ dels), w\<lparr>calls := calls w @ [NewIterator]\<rparr>) \<and>
   dbRemoveByAnyPrefix w None jKeyPrefixes =
     (of_nat (length dels), None,
      if dels = [] then w\<lparr>calls := calls w @ [NewIterator]\<rparr>
      else w\<lparr>db := filter (\<lambda>(k, v). \<not> (\<exists>p\<in>set ps. has_prefix k p)) (db w),
             calls := calls w @ [NewIterator, Write dels]\<rparr>) \<and>
   (\<forall>k\<in>set (map fst (db w)).
      count_list dels (Delete k) = length (filter (\<lambda>p. has_prefix k p) ps))"
proof (intro conjI ballI)
  assume a: "sorted (map fst (db w))" "distinct (map fst (db w))" "fault w = None"
    "ps = filter (\<lambda>s. s \<noteq> []) jKeyPrefixes" "ps \<noteq> []" "dels = spec_staged_deletes ps (db w)"
  have eq: "dbRemoveByAnyPrefix w batchPtr jKeyPrefixes =
     remove_finish (NativeBridge ''dbRemoveByAnyPrefix'') 533 (called NewIterator w) batchPtr
       (if dels = [] then batchPtr else Some ((case batchPtr of None \<Rightarrow> [] | Some b \<Rightarrow> b) @ dels))
       (length dels)" for batchPtr
    using dbRemoveByAnyPrefix_sorted [of w jKeyPrefixes batchPtr] a by simp
  show "dbRemoveByAnyPrefix w (Some b) jKeyPrefixes =
     (of_nat (length dels), Some (b @ dels), w\<lparr>calls := calls w @ [NewIterator]\<rparr>)"
    by (simp add: eq remove_finish_def called_def)
  show "dbRemoveByAnyPrefix w None jKeyPrefixes =
     (of_nat (length dels), None,
      if dels = [] then w\<lparr>calls := calls w @ [NewIterator]\<rparr>
      else w\<lparr>db := filter (\<lambda>(k, v). \<not> (\<exists>p\<in>set ps. has_prefix k p)) (db w),
             calls := calls w @ [NewIterator, Write dels]\<rparr>)"
    using a(3) apply_staged_deletes [of ps "db w"]
    by (simp add: eq remove_finish_def called_def db_Write_def st_ok_def a(6))
next
  fix k
  assume a: "distinct (map fst (db w))" "dels = spec_staged_deletes ps (db w)"
    and k: "k \<in> set (map fst (db w))"
  show "count_list dels (Delete k) = length (filter (\<lambda>p. has_prefix k p) ps)"
    using staged_count [OF a(1) k] a(2) by simp
qed

text \<open>
  The spec's example: prefixes \<^verbatim>\<open>"a"\<close> and \<^verbatim>\<open>"ab"\<close>, stored key \<^verbatim>\<open>"ab1"\<close> (beside \<^verbatim>\<open>"b"\<close>). Two
  deletes of \<^verbatim>\<open>"ab1"\<close> are staged, the result is 2, and one key has left the store.
\<close>

theorem remove_by_any_prefix_overcount_witness:
  "dbRemoveByAnyPrefix w_ab1 None [''ab'', ''a''] =
     (2, None, w_ab1\<lparr>db := [(''b'', [])],
                      calls := [NewIterator, Write [Delete ''ab1'', Delete ''ab1'']]\<rparr>) \<and>
   dbRemoveByAnyPrefix w_ab1 (Some []) [''ab'', ''a''] =
     (2, Some [Delete ''ab1'', Delete ''ab1''], w_ab1\<lparr>calls := [NewIterator]\<rparr>) \<and>
   count_list [Delete ''ab1'', Delete ''ab1''] (Delete ''ab1'') = 2 \<and>
   length (filter (\<lambda>p. has_prefix ''ab1'' p) [''ab'', ''a'']) = 2 \<and>
   map fst (db w_ab1) = [''ab1'', ''b'']"
proof -
  have s: "sorted (map fst (db w_ab1))" and d: "distinct (map fst (db w_ab1))"
    and f: "fault w_ab1 = None"
    by (simp_all add: w_ab1_def)
  have p: "[''ab'', ''a''] = filter (\<lambda>s. s \<noteq> []) [''ab'', ''a'']" and n: "[''ab'', ''a''] \<noteq> []"
    by simp_all
  have e: "spec_staged_deletes [''ab'', ''a''] (db w_ab1) = [Delete ''ab1'', Delete ''ab1'']"
    by (simp add: spec_staged_deletes_def matching_def has_prefix_def w_ab1_def)
  have "[Delete ''ab1'', Delete ''ab1''] = spec_staged_deletes [''ab'', ''a''] (db w_ab1)"
    using e by simp
  from remove_by_any_prefix_overcount [OF s d f p n this, of "[]"]
  show ?thesis
    by (simp add: w_ab1_def has_prefix_def)
qed

subsection \<open>Empty elements among several prefixes\<close>

lemma remove_finish_thrown:
  "thrown (snd (snd (remove_finish func line w batchPtr batch n))) = thrown w \<or>
   (\<exists>m. thrown (snd (snd (remove_finish func line w batchPtr batch n))) =
        thrown w @ [Exn AssertionError m])"
  by (auto simp: remove_finish_def db_Write_def called_def throw_new_def ON_RECOVERABLE_ERROR_def
      split: option.splits)

text \<open>
  Claim C9. \<^verbatim>\<open>dbRemoveByAnyPrefix\<close> raises an argument error exactly in two cases: the array
  has length 0, or every element is empty. In both nothing else happens. With at least one
  non-empty element the empty ones make no difference: the call behaves as on the array
  without them, and the only exception it can raise is the recoverable error of a failed
  write, never an argument error.
\<close>

theorem remove_by_any_prefix_empty_elements:
  "(jKeyPrefixes = [] \<longrightarrow>
      dbRemoveByAnyPrefix w batchPtr jKeyPrefixes =
        (- 1, batchPtr,
         throw_new (ON_ARGUMENT_ERROR (NativeBridge ''dbRemoveByAnyPrefix'') 483 ''length == 0'' []) w)) \<and>
   (jKeyPrefixes \<noteq> [] \<and> (\<forall>s\<in>set jKeyPrefixes. s = []) \<longrightarrow>
      dbRemoveByAnyPrefix w batchPtr jKeyPrefixes =
        (- 1, batchPtr,
         throw_new (ON_ARGUMENT_ERROR (NativeBridge ''dbRemoveByAnyPrefix'') 501 ''prefixes.empty()'' []) w)) \<and>
   ((\<exists>s\<in>set jKeyPrefixes. s \<noteq> []) \<longrightarrow>
      dbRemoveByAnyPrefix w batchPtr jKeyPrefixes =
        dbRemoveByAnyPrefix w batchPtr (filter (\<lambda>s. s \<noteq> []) jKeyPrefixes) \<and>
      (thrown (snd (snd (dbRemoveByAnyPrefix w batchPtr jKeyPrefixes))) = thrown w \<or>
       (\<exists>m. thrown (snd (snd (dbRemoveByAnyPrefix w batchPtr jKeyPrefixes))) =
          thrown w @ [Exn AssertionError m])))"
proof (intro conjI impI)
  assume "jKeyPrefixes = []"
  then show "dbRemoveByAnyPrefix w batchPtr jKeyPrefixes =
        (- 1, batchPtr,
         throw_new (ON_ARGUMENT_ERROR (NativeBridge ''dbRemoveByAnyPrefix'') 483 ''length == 0'' []) w)"
    by (simp add: dbRemoveByAnyPrefix_def)
next
  assume "jKeyPrefixes \<noteq> [] \<and> (\<forall>s\<in>set jKeyPrefixes. s = [])"
  then have "jKeyPrefixes \<noteq> []" and "filter (\<lambda>s. s \<noteq> []) jKeyPrefixes = []"
    by (simp_all add: filter_empty_conv)
  then show "dbRemoveByAnyPrefix w batchPtr jKeyPrefixes =
        (- 1, batchPtr,
         throw_new (ON_ARGUMENT_ERROR (NativeBridge ''dbRemoveByAnyPrefix'') 501 ''prefixes.empty()'' []) w)"
    by (simp add: dbRemoveByAnyPrefix_def collect_prefixes_filter)
next
  assume a: "\<exists>s\<in>set jKeyPrefixes. s \<noteq> []"
  then have ne: "filter (\<lambda>s. s \<noteq> []) jKeyPrefixes \<noteq> []" and ne': "jKeyPrefixes \<noteq> []"
    by (auto simp: filter_empty_conv)
  show "dbRemoveByAnyPrefix w batchPtr jKeyPrefixes =
        dbRemoveByAnyPrefix w batchPtr (filter (\<lambda>s. s \<noteq> []) jKeyPrefixes)"
    using ne ne' by (simp add: dbRemoveByAnyPrefix_def collect_prefixes_filter)
  show "thrown (snd (snd (dbRemoveByAnyPrefix w batchPtr jKeyPrefixes))) = thrown w \<or>
       (\<exists>m. thrown (snd (snd (dbRemoveByAnyPrefix w batchPtr jKeyPrefixes))) =
          thrown w @ [Exn AssertionError m])"
    using ne ne' remove_finish_thrown [of _ _ "called NewIterator w"]
    by (simp add: dbRemoveByAnyPrefix_def collect_prefixes_filter db_NewIterator_def called_def
        split: prod.splits)
qed

theorem remove_by_any_prefix_empty_elements_witness:
  "dbRemoveByAnyPrefix w_ab1 None [] =
     (- 1, None, w_ab1\<lparr>thrown := [Exn IllegalArgumentException
        ''Java_me_vkryl_leveldb_NativeBridge_dbRemoveByAnyPrefix:483: length == 0'']\<rparr>) \<and>
   dbRemoveByAnyPrefix w_ab1 None [[], []] =
     (- 1, None, w_ab1\<lparr>thrown := [Exn IllegalArgumentException
        ''Java_me_vkryl_leveldb_NativeBridge_dbRemoveByAnyPrefix:501: prefixes.empty()'']\<rparr>) \<and>
   dbRemoveByAnyPrefix w_ab1 None [[], ''ab'', []] = dbRemoveByAnyPrefix w_ab1 None [''ab''] \<and>
   dbRemoveByAnyPrefix w_ab1 None [''ab''] =
     (1, None, w_ab1\<lparr>db := [(''b'', [])], calls := [NewIterator, Write [Delete ''ab1'']]\<rparr>)"
proof -
  have 1: "dbRemoveByAnyPrefix w_ab1 None [] =
     (- 1, None, w_ab1\<lparr>thrown := [Exn IllegalArgumentException
        ''Java_me_vkryl_leveldb_NativeBridge_dbRemoveByAnyPrefix:483: length == 0'']\<rparr>)"
    using remove_by_any_prefix_empty_elements [of "[]" w_ab1 None]
    by (simp add: throw_new_def ON_ARGUMENT_ERROR_def makeErrorText_def ERROR_PREFIX_def
        NativeBridge_def to_string_eval w_ab1_def)
  have 2: "dbRemoveByAnyPrefix w_ab1 None [[], []] =
     (- 1, None, w_ab1\<lparr>thrown := [Exn IllegalArgumentException
        ''Java_me_vkryl_leveldb_NativeBridge_dbRemoveByAnyPrefix:501: prefixes.empty()'']\<rparr>)"
    using remove_by_any_prefix_empty_elements [of "[[], []]" w_ab1 None]
    by (simp add: throw_new_def ON_ARGUMENT_ERROR_def makeErrorText_def ERROR_PREFIX_def
        NativeBridge_def to_string_eval w_ab1_def)
  have 3: "dbRemoveByAnyPrefix w_ab1 None [[], ''ab'', []] = dbRemoveByAnyPrefix w_ab1 None [''ab'']"
    using remove_by_any_prefix_empty_elements [of "[[], ''ab'', []]" w_ab1 None]
    by simp
  have 4: "dbRemoveByAnyPrefix w_ab1 None [''ab''] =
     (1, None, w_ab1\<lparr>db := [(''b'', [])], calls := [NewIterator, Write [Delete ''ab1'']]\<rparr>)"
    by (simp add: dbRemoveByAnyPrefix_def db_NewIterator_def called_def Seek_def has_prefix_def
        remove_finish_def db_Write_def apply_batch_def st_ok_def w_ab1_def)
  show ?thesis using 1 2 3 4 by simp
qed

subsection \<open>Committing a batch\<close>

lemma map_of_store_put: "map_of (store_put k v s) = (map_of s)(k \<mapsto> v)"
  by (induction s) (auto simp: fun_eq_iff)

lemma map_of_store_delete: "map_of (store_delete k s) = (map_of s)(k := None)"
  by (induction s) (auto simp: fun_eq_iff)

lemma map_of_apply_op: "map_of (apply_op x s) = op_effect x (map_of s)"
  by (cases x) (simp_all add: map_of_store_put map_of_store_delete)

lemma map_of_apply_batch: "map_of (apply_batch batch s) = fold op_effect batch (map_of s)"
  unfolding apply_batch_def
  by (induction batch arbitrary: s) (simp_all add: map_of_apply_op)

text \<open>
  Claim C5. \<^verbatim>\<open>dbBatchPerform\<close> hands the batch to the engine's \<^verbatim>\<open>Write\<close>. When the write
  succeeds the store is the old one with every staged operation applied in order (a
  lookup then sees the effect of each of them), the batch is cleared, and the result is
  \<^verbatim>\<open>JNI_TRUE\<close>. When the write fails the store is as
  before (so no read sees a staged operation), the batch still holds its operations, the
  result is \<^verbatim>\<open>JNI_FALSE\<close>, and the recoverable error (an \<^verbatim>\<open>AssertionError\<close> with the
  engine's text) is raised.
\<close>

theorem dbBatchPerform_commit:
  "(fault w = None \<longrightarrow>
      dbBatchPerform w batch =
        (JNI_TRUE, [], w\<lparr>db := apply_batch batch (db w), calls := calls w @ [Write batch]\<rparr>) \<and>
      map_of (apply_batch batch (db w)) = fold op_effect batch (map_of (db w))) \<and>
   (fault w = Some msg \<longrightarrow>
      dbBatchPerform w batch =
        (JNI_FALSE, batch,
         w\<lparr>calls := calls w @ [Write batch],
           thrown := thrown w @ [Exn AssertionError
             (makeErrorText (ERROR_PREFIX (NativeBridge ''dbBatchPerform'') 934) (''IO error: '' @ msg) [])]\<rparr>))"
  by (simp add: dbBatchPerform_def db_Write_def called_def throw_new_def st_ok_def io_error_def
      ON_RECOVERABLE_ERROR_def map_of_apply_batch)

theorem dbBatchPerform_commit_witness:
  "dbBatchPerform w_ab1 [Put ''a'' [1], Delete ''ab1'', Put ''c'' []] =
     (JNI_TRUE, [], w_ab1\<lparr>db := [(''a'', [1]), (''b'', []), (''c'', [])],
        calls := [Write [Put ''a'' [1], Delete ''ab1'', Put ''c'' []]]\<rparr>) \<and>
   dbBatchPerform w_faulty [Put ''a'' [1], Delete ''ab1'', Put ''c'' []] =
     (JNI_FALSE, [Put ''a'' [1], Delete ''ab1'', Put ''c'' []],
      w_faulty\<lparr>calls := [Write [Put ''a'' [1], Delete ''ab1'', Put ''c'' []]],
        thrown := [Exn AssertionError
          ''Java_me_vkryl_leveldb_NativeBridge_dbBatchPerform:934: IO error: disk full'']\<rparr>) \<and>
   db w_faulty = [(''ab1'', [7, 0, 0, 0]), (''b'', [])]"
  using dbBatchPerform_commit [of w_ab1 "[Put ''a'' [1], Delete ''ab1'', Put ''c'' []]"]
    dbBatchPerform_commit [of w_faulty "[Put ''a'' [1], Delete ''ab1'', Put ''c'' []]" "''disk full''"]
  by (simp add: w_ab1_def w_faulty_def apply_batch_def makeErrorText_def ERROR_PREFIX_def
      NativeBridge_def to_string_eval)

subsection \<open>The empty prefix\<close>

text \<open>
  Claim C8. Size by prefix, find all, find by value, opening an iterator and removal by
  prefix each answer the empty prefix with their failure value and one
  \<^verbatim>\<open>IllegalArgumentException\<close>. Raising it adds the exception and nothing else: the store,
  the engine's call log and the caller's batch are as before, so no engine call was made.
\<close>

theorem empty_prefix_rejected:
  "dbGetSizeByPrefix w [] =
     (- 1, throw_new (ON_ARGUMENT_ERROR (NativeBridge ''dbGetSizeByPrefix'') 179 ''prefix.empty()'' []) w) \<and>
   dbFindAll w [] =
     (None, throw_new (ON_ARGUMENT_ERROR (NativeBridge ''dbFindAll'') 209 ''prefix.empty()'' []) w) \<and>
   dbFindByValue w [] jValue =
     (None, throw_new (ON_ARGUMENT_ERROR (NativeBridge ''dbFindByValue'') 250 ''prefix.empty()'' []) w) \<and>
   dbFind w (Some []) None =
     (None, throw_new (ON_ARGUMENT_ERROR (NativeBridge ''dbFind'') 331 ''prefix.empty()'' []) w) \<and>
   dbRemoveByPrefix w batchPtr [] =
     (- 1, batchPtr,
      throw_new (ON_ARGUMENT_ERROR (NativeBridge ''dbRemoveByPrefix'') 446 ''prefix.empty()'' []) w) \<and>
   db (throw_new e w) = db w \<and> calls (throw_new e w) = calls w \<and> fault (throw_new e w) = fault w \<and>
   thrown (throw_new e w) = thrown w @ [e]"
  by (simp add: dbGetSizeByPrefix_def dbFindAll_def dbFindByValue_def dbFind_def
      dbRemoveByPrefix_def throw_new_def)

theorem empty_prefix_rejected_witness:
  "dbGetSizeByPrefix w_ab1 [] = (- 1, w_ab1\<lparr>thrown := [Exn IllegalArgumentException
      ''Java_me_vkryl_leveldb_NativeBridge_dbGetSizeByPrefix:179: prefix.empty()'']\<rparr>) \<and>
   dbFindAll w_ab1 [] = (None, w_ab1\<lparr>thrown := [Exn IllegalArgumentException
      ''Java_me_vkryl_leveldb_NativeBridge_dbFindAll:209: prefix.empty()'']\<rparr>) \<and>
   dbFindByValue w_ab1 [] [7, 0, 0, 0] = (None, w_ab1\<lparr>thrown := [Exn IllegalArgumentException
      ''Java_me_vkryl_leveldb_NativeBridge_dbFindByValue:250: prefix.empty()'']\<rparr>) \<and>
   dbFind w_ab1 (Some []) None = (None, w_ab1\<lparr>thrown := [Exn IllegalArgumentException
      ''Java_me_vkryl_leveldb_NativeBridge_dbFind:331: prefix.empty()'']\<rparr>) \<and>
   dbRemoveByPrefix w_ab1 (Some [Put ''a'' []]) [] =
     (- 1, Some [Put ''a'' []], w_ab1\<lparr>thrown := [Exn IllegalArgumentException
      ''Java_me_vkryl_leveldb_NativeBridge_dbRemoveByPrefix:446: prefix.empty()'']\<rparr>)"
  using empty_prefix_rejected [of w_ab1 "[7, 0, 0, 0]" "Some [Put ''a'' []]"]
  by (simp add: throw_new_def ON_ARGUMENT_ERROR_def makeErrorText_def ERROR_PREFIX_def
      NativeBridge_def to_string_eval w_ab1_def)

subsection \<open>Bytes and words\<close>

lemma le_nat_le_bytes: "le_nat (le_bytes n x) = x mod 256 ^ n"
proof (induction n arbitrary: x)
  case 0
  then show ?case by simp
next
  case (Suc n)
  have "unat (of_nat (x mod 256) :: byte) = x mod 256"
    by (simp add: unat_of_nat)
  then have "le_nat (le_bytes (Suc n) x) = x mod 256 + 256 * (x div 256 mod 256 ^ n)"
    by (simp add: Suc.IH)
  also have "\<dots> = x mod 256 ^ Suc n"
    by (simp add: mod_mult2_eq)
  finally show ?case .
qed

lemma length_le_bytes: "length (le_bytes n x) = n"
  by (induction n arbitrary: x) simp_all

lemma length_bytes_of: "length (bytes_of (v :: 'a::len word)) = sizeof TYPE('a)"
  by (simp add: bytes_of_def length_le_bytes)

lemma jni_as_bytes_of:
  assumes "8 * sizeof TYPE('a::len) = LENGTH('a)"
  shows "jni_as (bytes_of (v :: 'a word) @ rest) = v"
proof -
  have "256 ^ sizeof TYPE('a) = (2 :: nat) ^ LENGTH('a)"
  proof -
    have "(256 :: nat) ^ sizeof TYPE('a) = 2 ^ (8 * sizeof TYPE('a))"
      by (simp add: power_mult)
    then show ?thesis using assms by simp
  qed
  moreover have "unat v < 2 ^ LENGTH('a)" by simp
  ultimately have "unat v mod 256 ^ sizeof TYPE('a) = unat v" by simp
  then show ?thesis
    by (simp add: jni_as_def bytes_of_def length_le_bytes le_nat_le_bytes)
qed

lemma sizeof_8: "sizeof TYPE(8) = 1" by (simp add: sizeof_def)
lemma sizeof_16: "sizeof TYPE(16) = 2" by (simp add: sizeof_def)
lemma sizeof_32: "sizeof TYPE(32) = 4" by (simp add: sizeof_def)
lemma sizeof_64: "sizeof TYPE(64) = 8" by (simp add: sizeof_def)

lemma read_elems_bytes:
  assumes "8 * sizeof TYPE('a::len) = LENGTH('a)"
  shows "read_elems (length xs) (concat (map bytes_of (xs :: 'a word list)) @ rest) = xs"
proof (induction xs)
  case Nil
  then show ?case by simp
next
  case (Cons x xs)
  have "(read_elems (length (x # xs)) (concat (map bytes_of (x # xs)) @ rest) :: 'a word list) =
        jni_as (bytes_of x @ (concat (map bytes_of xs) @ rest)) #
        read_elems (length xs) (drop (sizeof TYPE('a)) (bytes_of x @ (concat (map bytes_of xs) @ rest)))"
    by simp
  also have "\<dots> = x # read_elems (length xs) (concat (map bytes_of xs) @ rest)"
    by (simp add: jni_as_bytes_of [OF assms] length_bytes_of)
  also have "\<dots> = x # xs" by (simp add: Cons.IH)
  finally show ?case .
qed

lemma length_concat_bytes:
  "length (concat (map bytes_of (xs :: 'a::len word list))) = length xs * sizeof TYPE('a)"
  by (induction xs) (simp_all add: length_bytes_of)

lemma sint_jsize: "n < 2 ^ 31 \<Longrightarrow> sint (of_nat n :: jsize) = int n"
proof -
  assume "n < 2 ^ 31"
  then have "int n < 2 ^ 31" by (metis of_nat_less_iff of_nat_numeral of_nat_power)
  then have "signed_take_bit 31 (int n) = int n"
    by (intro signed_take_bit_int_eq_self) simp_all
  then show ?thesis by (simp add: signed_of_nat)
qed


lemmas sizeof_simps = sizeof_8 sizeof_16 sizeof_32 sizeof_64

subsection \<open>Size validation\<close>

text \<open>
  Claim C6. For a scalar type of any width, a stored value whose length is not
  \<^verbatim>\<open>sizeof(T)\<close> is not decoded: \<^verbatim>\<open>dbParse<T>\<close> (and \<^verbatim>\<open>dbGet<T>\<close> through it) hands back the
  caller's default and the iterator readers of \<^verbatim>\<open>DB_FUNC_CAST\<close> hand back 0, in each case
  with one \<^verbatim>\<open>IllegalStateException\<close> whose text names the actual and the expected size and
  the key. For arrays a length that is not a multiple of the element size, and for text a
  length that is not a multiple of 2, gives no array or string but the same exception with
  the modulus. The exception is pending when the native call returns, so the Java caller
  never sees the value beside it. The key stands at the end of the text when it is not
  empty.
\<close>

theorem size_mismatch_is_value_error:
  "(length v \<noteq> sizeof TYPE('a::len) \<longrightarrow>
      dbParse key v (d :: 'a word) t =
        (d, [Exn IllegalStateException (makeErrorText (ERROR_PREFIX ''dbParse'' 559)
               (to_string (length v) @ '' != '' @ to_string (sizeof TYPE('a))) key)]) \<and>
      (DB_FUNC_CAST NAME line (key, v) :: 'a word \<times> exn list) =
        (0, [Exn IllegalStateException (makeErrorText (ERROR_PREFIX (NativeBridge NAME) line)
               (to_string (length v) @ '' != '' @ to_string (sizeof TYPE('a))) key)]) \<and>
      (fault w = None \<and> map_of (db w) key = Some v \<longrightarrow>
         dbGet w key d t =
           (d, w\<lparr>calls := calls w @ [Get key],
                  thrown := thrown w @ [Exn IllegalStateException
                    (makeErrorText (ERROR_PREFIX ''dbParse'' 559)
                       (to_string (length v) @ '' != '' @ to_string (sizeof TYPE('a))) key)]\<rparr>))) \<and>
   (length v mod sizeof TYPE('b::len) \<noteq> 0 \<longrightarrow>
      (dbParseArray key v :: 'b word list option \<times> exn list) =
        (None, [Exn IllegalStateException (makeErrorText (ERROR_PREFIX ''dbParseArray'' 663)
               (''('' @ to_string (length v) @ '' % '' @ to_string (sizeof TYPE('b)) @ '') != 0'') key)]) \<and>
      (DB_FUNC_CAST_ARRAY NAME line (key, v) :: 'b word list option \<times> exn list) =
        (None, [Exn IllegalStateException (makeErrorText (ERROR_PREFIX (NativeBridge NAME) line)
               (''('' @ to_string (length v) @ '' % '' @ to_string (sizeof TYPE('b)) @ '') != 0'') key)])) \<and>
   (length v mod 2 \<noteq> 0 \<longrightarrow>
      dbParse_jstring key v ds t =
        (ds, [Exn IllegalStateException (makeErrorText (ERROR_PREFIX ''dbParse'' 572)
               (''('' @ to_string (length v) @ '' % 2) != 0'') key)]) \<and>
      dbAsString (key, v) =
        (None, [Exn IllegalStateException (makeErrorText (ERROR_PREFIX (NativeBridge ''dbAsString'') 401)
               (''('' @ to_string (length v) @ '' % 2) != 0'') key)])) \<and>
   (key \<noteq> [] \<longrightarrow> makeErrorText p m key = p @ '': '' @ m @ '', key:'' @ key)"
proof (intro conjI impI)
  assume "length v \<noteq> sizeof TYPE('a)"
  then show "dbParse key v (d :: 'a word) t =
        (d, [Exn IllegalStateException (makeErrorText (ERROR_PREFIX ''dbParse'' 559)
               (to_string (length v) @ '' != '' @ to_string (sizeof TYPE('a))) key)])"
    by (simp add: dbParse_def ON_VALUE_ERROR_def NEQ_MESSAGE_def)
next
  assume "length v \<noteq> sizeof TYPE('a)"
  then show "(DB_FUNC_CAST NAME line (key, v) :: 'a word \<times> exn list) =
        (0, [Exn IllegalStateException (makeErrorText (ERROR_PREFIX (NativeBridge NAME) line)
               (to_string (length v) @ '' != '' @ to_string (sizeof TYPE('a))) key)])"
    by (simp add: DB_FUNC_CAST_def ON_VALUE_ERROR_def NEQ_MESSAGE_def)
next
  assume "length v \<noteq> sizeof TYPE('a)" and "fault w = None \<and> map_of (db w) key = Some v"
  then show "dbGet w key d t =
           (d, w\<lparr>calls := calls w @ [Get key],
                  thrown := thrown w @ [Exn IllegalStateException
                    (makeErrorText (ERROR_PREFIX ''dbParse'' 559)
                       (to_string (length v) @ '' != '' @ to_string (sizeof TYPE('a))) key)]\<rparr>)"
    by (simp add: dbGet_def db_Get_def called_def st_ok_def dbParse_def ON_VALUE_ERROR_def
        NEQ_MESSAGE_def)
next
  assume "length v mod sizeof TYPE('b) \<noteq> 0"
  then show "(dbParseArray key v :: 'b word list option \<times> exn list) =
        (None, [Exn IllegalStateException (makeErrorText (ERROR_PREFIX ''dbParseArray'' 663)
               (''('' @ to_string (length v) @ '' % '' @ to_string (sizeof TYPE('b)) @ '') != 0'') key)])"
    by (simp add: dbParseArray_def ON_VALUE_ERROR_def MODULO_MESSAGE_def)
next
  assume "length v mod sizeof TYPE('b) \<noteq> 0"
  then show "(DB_FUNC_CAST_ARRAY NAME line (key, v) :: 'b word list option \<times> exn list) =
        (None, [Exn IllegalStateException (makeErrorText (ERROR_PREFIX (NativeBridge NAME) line)
               (''('' @ to_string (length v) @ '' % '' @ to_string (sizeof TYPE('b)) @ '') != 0'') key)])"
    by (simp add: DB_FUNC_CAST_ARRAY_def ON_VALUE_ERROR_def MODULO_MESSAGE_def)
next
  assume "length v mod 2 \<noteq> 0"
  then show "dbParse_jstring key v ds t =
        (ds, [Exn IllegalStateException (makeErrorText (ERROR_PREFIX ''dbParse'' 572)
               (''('' @ to_string (length v) @ '' % 2) != 0'') key)])"
    by (simp add: dbParse_jstring_def ON_VALUE_ERROR_def MODULO_MESSAGE_def sizeof_16 to_string_eval)
next
  assume "length v mod 2 \<noteq> 0"
  then show "dbAsString (key, v) =
        (None, [Exn IllegalStateException (makeErrorText (ERROR_PREFIX (NativeBridge ''dbAsString'') 401)
               (''('' @ to_string (length v) @ '' % 2) != 0'') key)])"
    by (simp add: dbAsString_def ON_VALUE_ERROR_def MODULO_MESSAGE_def sizeof_16 to_string_eval)
next
  assume "key \<noteq> []"
  then show "makeErrorText p m key = p @ '': '' @ m @ '', key:'' @ key"
    by (simp add: makeErrorText_def)
qed

theorem size_mismatch_is_value_error_witness:
  "dbParse ''x'' [1, 2, 3] (5 :: jint) JNI_FALSE =
     (5, [Exn IllegalStateException ''dbParse:559: 3 != 4, key:x'']) \<and>
   (DB_FUNC_CAST ''dbAsInt'' 370 (''x'', [1, 2, 3]) :: jint \<times> exn list) =
     (0, [Exn IllegalStateException ''Java_me_vkryl_leveldb_NativeBridge_dbAsInt:370: 3 != 4, key:x'']) \<and>
   dbGet w_nums ''x'' (5 :: jint) JNI_FALSE =
     (5, w_nums\<lparr>calls := [Get ''x''],
           thrown := [Exn IllegalStateException ''dbParse:559: 3 != 4, key:x'']\<rparr>) \<and>
   (dbParseArray ''x'' [1, 2, 3] :: jlong list option \<times> exn list) =
     (None, [Exn IllegalStateException ''dbParseArray:663: (3 % 8) != 0, key:x'']) \<and>
   (DB_FUNC_CAST_ARRAY ''dbAsLongArray'' 395 (''x'', [1, 2, 3]) :: jlong list option \<times> exn list) =
     (None, [Exn IllegalStateException
        ''Java_me_vkryl_leveldb_NativeBridge_dbAsLongArray:395: (3 % 8) != 0, key:x'']) \<and>
   dbParse_jstring ''x'' [1, 2, 3] None JNI_FALSE =
     (None, [Exn IllegalStateException ''dbParse:572: (3 % 2) != 0, key:x'']) \<and>
   dbAsString (''x'', [1, 2, 3]) =
     (None, [Exn IllegalStateException
        ''Java_me_vkryl_leveldb_NativeBridge_dbAsString:401: (3 % 2) != 0, key:x''])"
  using size_mismatch_is_value_error [where ?'a = 32 and ?'b = 64, of "[1, 2, 3]" "''x''" 5 JNI_FALSE
      "''dbAsInt''" 370 w_nums]
    size_mismatch_is_value_error [where ?'a = 32 and ?'b = 64, of "[1, 2, 3]" "''x''" 5 JNI_FALSE
      "''dbAsLongArray''" 395 w_nums None]
  by (simp add: sizeof_simps makeErrorText_def ERROR_PREFIX_def NativeBridge_def to_string_eval
      w_nums_def)

subsection \<open>The int-or-long getter\<close>

text \<open>
  Claim C10. With a healthy engine \<^verbatim>\<open>dbGetIntOrLong\<close> returns, for a stored value of 4 bytes,
  that \<^verbatim>\<open>jint\<close> sign-extended to \<^verbatim>\<open>jlong\<close>; for 8 bytes the \<^verbatim>\<open>jlong\<close> as stored; for any other
  size the default with a value error naming the size and the key; and for an absent key
  the default, with a \<^verbatim>\<open>FileNotFoundException\<close> exactly when \<^verbatim>\<open>throwIfError\<close> is \<^verbatim>\<open>JNI_TRUE\<close>.
\<close>

theorem dbGetIntOrLong_widths:
  "fault w = None \<Longrightarrow>
   dbGetIntOrLong w key d t =
     (case map_of (db w) key of
        None \<Rightarrow>
          (scast d,
           w\<lparr>calls := calls w @ [Get key],
             thrown := thrown w @
               (if t = JNI_TRUE then [Exn FileNotFoundException (ToString not_found)] else [])\<rparr>)
      | Some v \<Rightarrow>
          if length v = 4 then (scast (jni_as v :: jint), w\<lparr>calls := calls w @ [Get key]\<rparr>)
          else if length v = 8 then (jni_as v, w\<lparr>calls := calls w @ [Get key]\<rparr>)
          else
            (scast d,
             w\<lparr>calls := calls w @ [Get key],
               thrown := thrown w @ [Exn IllegalStateException
                 (makeErrorText (ERROR_PREFIX (NativeBridge ''dbGetIntOrLong'') 623)
                    (to_string (length v) @ '' != 8'') key)]\<rparr>))"
  by (auto simp: dbGetIntOrLong_def db_Get_def called_def get_failed_def not_found_def st_ok_def
      throw_new_def dbParse_def sizeof_simps ON_VALUE_ERROR_def NEQ_MESSAGE_def to_string_eval
      split: option.splits)

theorem dbGetIntOrLong_widths_witness:
  "dbGetIntOrLong w_nums ''i'' 5 JNI_TRUE = (- 1, w_nums\<lparr>calls := [Get ''i'']\<rparr>) \<and>
   dbGetIntOrLong w_nums ''l'' 5 JNI_TRUE =
     (- 9223372036854775807, w_nums\<lparr>calls := [Get ''l'']\<rparr>) \<and>
   dbGetIntOrLong w_nums ''x'' (- 5) JNI_TRUE =
     (- 5, w_nums\<lparr>calls := [Get ''x''], thrown := [Exn IllegalStateException
        ''Java_me_vkryl_leveldb_NativeBridge_dbGetIntOrLong:623: 3 != 8, key:x'']\<rparr>) \<and>
   dbGetIntOrLong w_nums ''none'' (- 5) JNI_TRUE =
     (- 5, w_nums\<lparr>calls := [Get ''none''],
        thrown := [Exn FileNotFoundException ''NotFound: '']\<rparr>) \<and>
   dbGetIntOrLong w_nums ''none'' (- 5) JNI_FALSE = (- 5, w_nums\<lparr>calls := [Get ''none'']\<rparr>)"
proof -
  have f: "fault w_nums = None" by (simp add: w_nums_def)
  have i: "scast (jni_as [255, 255, 255, 255] :: jint) = (- 1 :: jlong)"
    by (simp add: jni_as_def sizeof_simps)
  have l: "(jni_as [1, 0, 0, 0, 0, 0, 0, 128] :: jlong) = - 9223372036854775807"
    by (simp add: jni_as_def sizeof_simps)
  show ?thesis
    using dbGetIntOrLong_widths [OF f, of "''i''" 5 JNI_TRUE]
      dbGetIntOrLong_widths [OF f, of "''l''" 5 JNI_TRUE]
      dbGetIntOrLong_widths [OF f, of "''x''" "- 5" JNI_TRUE]
      dbGetIntOrLong_widths [OF f, of "''none''" "- 5" JNI_TRUE]
      dbGetIntOrLong_widths [OF f, of "''none''" "- 5" JNI_FALSE]
    by (simp add: w_nums_def i l JNI_TRUE_def JNI_FALSE_def not_found_def makeErrorText_def
        ERROR_PREFIX_def NativeBridge_def to_string_eval)
qed

subsection \<open>Decoding a string array\<close>

lemma jsize_ok: "8 * sizeof TYPE(32) = LENGTH(32)" by (simp add: sizeof_def)
lemma jchar_ok: "8 * sizeof TYPE(16) = LENGTH(16)" by (simp add: sizeof_def)

lemma length_spec_string_layout: "length (spec_string_layout s) = 4 + 2 * length s"
  by (simp add: spec_string_layout_def length_bytes_of length_concat_bytes sizeof_simps)

lemma parse_strings_loop_stop:
  assumes "\<not> (int i < sint size' \<and> 0 < remaining)"
  shows "parse_strings_loop key v size' i position remaining result = (Some result, [])"
  by (subst parse_strings_loop.simps) (simp only: assms if_False)

lemma parse_strings_loop_short:
  "int i < sint size' \<Longrightarrow> 0 < remaining \<Longrightarrow> remaining < 4 \<Longrightarrow>
   parse_strings_loop key v size' i position remaining result =
     (None, [ON_VALUE_ERROR ''dbParseArray'' 702 (LESS_MESSAGE (to_string remaining) ''4'') key])"
  by (subst parse_strings_loop.simps) (simp add: sizeof_simps to_string_eval)

lemma parse_strings_loop_negative:
  assumes "int i < sint size'" and "drop position v = bytes_of (len :: jsize) @ rest"
    and "remaining = 4 + length rest" and "sint len < 0"
  shows "parse_strings_loop key v size' i position remaining result =
     (None, [ON_VALUE_ERROR ''dbParseArray'' 710 (LESS_MESSAGE (to_string_int (sint len)) ''0'') key])"
proof -
  have "(jni_as (drop position v) :: jsize) = len"
    by (simp add: assms(2) jni_as_bytes_of [OF jsize_ok])
  then show ?thesis
    using assms(1,3,4)
    by (subst parse_strings_loop.simps) (simp add: sizeof_simps to_string_eval Let_def)
qed

lemma parse_strings_loop_truncated:
  assumes "int i < sint size'" and "drop position v = bytes_of (len :: jsize) @ rest"
    and "remaining = 4 + length rest" and "0 \<le> sint len" and "length rest < 2 * nat (sint len)"
  shows "parse_strings_loop key v size' i position remaining result =
     (None, [ON_VALUE_ERROR ''dbParseArray'' 714
        (to_string (length rest) @ '' < ('' @ to_string_int (sint len) @ '' * 2)'') key])"
proof -
  have "(jni_as (drop position v) :: jsize) = len"
    by (simp add: assms(2) jni_as_bytes_of [OF jsize_ok])
  then show ?thesis
    using assms(1,3,4,5)
    by (subst parse_strings_loop.simps) (simp add: sizeof_simps to_string_eval Let_def)
qed

lemma parse_strings_loop_step:
  assumes "int i < sint size'" and "length s < 2 ^ 31"
    and "drop position v = spec_string_layout s @ rest"
    and "remaining = length (spec_string_layout s) + length rest"
  shows "parse_strings_loop key v size' i position remaining result =
     parse_strings_loop key v size' (i + 1) (position + length (spec_string_layout s))
       (length rest) (result[i := Some s])"
proof -
  let ?len = "of_nat (length s) :: jsize"
  have len: "(jni_as (drop position v) :: jsize) = ?len"
    by (simp add: assms(3) spec_string_layout_def jni_as_bytes_of [OF jsize_ok])
  have sl: "sint ?len = int (length s)"
    using assms(2) by (rule sint_jsize)
  have "drop (position + 4) v = drop 4 (drop position v)"
    by (simp add: add.commute)
  also have "\<dots> = concat (map bytes_of s) @ rest"
    by (simp add: assms(3) spec_string_layout_def length_bytes_of sizeof_simps)
  finally have data: "drop (position + 4) v = concat (map bytes_of s) @ rest" .
  have str: "(if 0 < int (length s) then read_elems (length s) (concat (map bytes_of s) @ rest) else []) = s"
    by (simp add: read_elems_bytes [OF jchar_ok])
  have rem: "remaining = 4 + 2 * length s + length rest"
    by (simp add: assms(4) length_spec_string_layout)
  show ?thesis
    apply (subst parse_strings_loop.simps)
    apply (simp only: len sl Let_def sizeof_simps data str nat_int)
    using assms(1) by (simp add: rem length_spec_string_layout mult.commute add.assoc)
qed

lemma parse_strings_loop_prefix:
  assumes "\<forall>s\<in>set ss. length s < 2 ^ 31"
    and "sint size' = int (length acc + length ss + m)"
    and "drop position v = concat (map spec_string_layout ss) @ tail"
  shows "parse_strings_loop key v size' (length acc) position
           (length (concat (map spec_string_layout ss)) + length tail)
           (map Some acc @ replicate (length ss + m) None) =
         parse_strings_loop key v size' (length acc + length ss)
           (position + length (concat (map spec_string_layout ss))) (length tail)
           (map Some (acc @ ss) @ replicate m None)"
  using assms
proof (induction ss arbitrary: acc position)
  case Nil
  then show ?case by simp
next
  case (Cons s ss)
  let ?rest = "concat (map spec_string_layout ss) @ tail"
  have i: "int (length acc) < sint size'" using Cons.prems(2) by simp
  have s: "length s < 2 ^ 31" using Cons.prems(1) by simp
  have d: "drop position v = spec_string_layout s @ ?rest" using Cons.prems(3) by simp
  have upd: "(map Some acc @ replicate (length (s # ss) + m) None)[length acc := Some s] =
             map Some (acc @ [s]) @ replicate (length ss + m) None"
    by (simp add: list_update_append)
  have d': "drop (position + length (spec_string_layout s)) v = ?rest"
  proof -
    have "drop (position + length (spec_string_layout s)) v =
          drop (length (spec_string_layout s)) (drop position v)"
      by (simp add: add.commute)
    then show ?thesis by (simp add: d)
  qed
  have "parse_strings_loop key v size' (length acc) position
           (length (concat (map spec_string_layout (s # ss))) + length tail)
           (map Some acc @ replicate (length (s # ss) + m) None) =
        parse_strings_loop key v size' (length acc + 1) (position + length (spec_string_layout s))
           (length ?rest) (map Some (acc @ [s]) @ replicate (length ss + m) None)"
    using parse_strings_loop_step [OF i s d, of "length (spec_string_layout s) + length ?rest" key
        "map Some acc @ replicate (length (s # ss) + m) None"]
    by (simp only: upd) (simp add: add.assoc)
  also have "\<dots> = parse_strings_loop key v size' (length (acc @ [s]) + length ss)
           (position + length (spec_string_layout s) + length (concat (map spec_string_layout ss)))
           (length tail) (map Some ((acc @ [s]) @ ss) @ replicate m None)"
    using Cons.IH [of "acc @ [s]" "position + length (spec_string_layout s)"] Cons.prems d'
    by simp
  finally show ?case by (simp add: add.assoc)
qed

lemma dbParseArray_jstring_prefix:
  assumes "\<forall>s\<in>set ss. length s < 2 ^ 31" and "0 \<le> sint count"
    and "length ss \<le> nat (sint count)"
  shows "dbParseArray_jstring key (spec_text_array_layout count ss @ tail) =
     parse_strings_loop key (spec_text_array_layout count ss @ tail) count (length ss)
       (4 + length (concat (map spec_string_layout ss))) (length tail)
       (map Some ss @ replicate (nat (sint count) - length ss) None)"
proof -
  let ?v = "spec_text_array_layout count ss @ tail"
  let ?m = "nat (sint count) - length ss"
  have v: "?v = bytes_of count @ (concat (map spec_string_layout ss) @ tail)"
    by (simp add: spec_text_array_layout_def)
  have len: "length (spec_text_array_layout count ss) = 4 + length (concat (map spec_string_layout ss))"
    by (simp add: spec_text_array_layout_def length_bytes_of sizeof_simps)
  have cnt: "(jni_as ?v :: jsize) = count"
    unfolding v by (rule jni_as_bytes_of [OF jsize_ok])
  have arr: "NewObjectArray count = Some (replicate (length ss + ?m) None)"
    using assms(2,3) by (simp add: NewObjectArray_def)
  have d: "drop 4 ?v = concat (map spec_string_layout ss) @ tail"
    unfolding v by (simp add: length_bytes_of sizeof_simps)
  have sz: "sint count = int (length ([] :: jstring list) + length ss + ?m)"
    using assms(2,3) by simp
  have "dbParseArray_jstring key ?v =
        parse_strings_loop key ?v count 0 4
          (length (concat (map spec_string_layout ss)) + length tail)
          (replicate (length ss + ?m) None)"
    unfolding dbParseArray_jstring_def Let_def cnt arr
    by (simp add: len sizeof_simps)
  also have "\<dots> = parse_strings_loop key ?v count (length ss)
       (4 + length (concat (map spec_string_layout ss))) (length tail)
       (map Some ss @ replicate ?m None)"
    using parse_strings_loop_prefix [OF assms(1) sz d, of key] by simp
  finally show ?thesis .
qed


lemma le_bytes_numeral:
  "le_bytes (numeral n) x = of_nat (x mod 256) # le_bytes (pred_numeral n) (x div 256)"
  by (simp only: numeral_eq_Suc [of n] le_bytes.simps)

lemma read_elems_numeral:
  "(read_elems (numeral n) data :: 'a::len word list) =
     jni_as data # read_elems (pred_numeral n) (drop (sizeof TYPE('a)) data)"
  by (simp only: numeral_eq_Suc [of n] read_elems.simps)

lemma spec_text_array_layout_Nil: "spec_text_array_layout count [] = bytes_of count"
  by (simp add: spec_text_array_layout_def)

lemma dbParseArray_jstring_exhausted:
  assumes "\<forall>s\<in>set ss. length s < 2 ^ 31" and "0 \<le> sint count"
    and "length ss < nat (sint count)"
  shows "dbParseArray_jstring key (spec_text_array_layout count ss) =
     (Some (map Some ss @ replicate (nat (sint count) - length ss) None), [])"
proof -
  have l: "length ss \<le> nat (sint count)" using assms(3) by simp
  have n: "\<not> (int (length ss) < sint count \<and> 0 < (0 :: nat))" by simp
  show ?thesis
    using dbParseArray_jstring_prefix [OF assms(1,2) l, of key "[]"]
    by (simp add: parse_strings_loop_stop [OF n])
qed

lemma dbParseArray_jstring_complete:
  assumes "\<forall>s\<in>set ss. length s < 2 ^ 31" and "0 \<le> sint count"
    and "length ss = nat (sint count)"
  shows "dbParseArray_jstring key (spec_text_array_layout count ss @ tail) = (Some (map Some ss), [])"
proof -
  have l: "length ss \<le> nat (sint count)" using assms(3) by simp
  have n: "\<not> (int (length ss) < sint count \<and> 0 < length tail)" using assms(3) by simp
  show ?thesis
    unfolding dbParseArray_jstring_prefix [OF assms(1,2) l] parse_strings_loop_stop [OF n]
    using assms(3) by simp
qed

text \<open>
  Claim C2, as amended. A buffer of fewer than 4 bytes is a value error. Otherwise let the
  buffer be a count, then \<open>ss\<close> laid out string by string (each a 4-byte length and that many
  2-byte code units), then a tail, with no more strings in \<open>ss\<close> than the count declares.
  \<^verbatim>\<open>dbParseArray<jstring, jobjectArray>\<close> reads the count and the strings of \<open>ss\<close>, and then:
  with the count reached it returns them, whatever the tail; with strings still declared
  it fails with a value error when the tail has 1 to 3 bytes, when the next declared length
  is negative, or when fewer code units follow than that length declares; but when the
  tail is empty, the buffer ending exactly at a string boundary, it stops without an error
  and returns the array with the entries not yet read left null.
\<close>

theorem text_array_decode:
  "(length u < 4 \<longrightarrow>
      dbParseArray_jstring key u =
        (None, [Exn IllegalStateException (makeErrorText (ERROR_PREFIX ''dbParseArray'' 680)
                  (to_string (length u) @ '' < 4'') key)])) \<and>
   ((\<forall>s\<in>set ss. length s < 2 ^ 31) \<and> 0 \<le> sint count \<and> length ss \<le> nat (sint count) \<and>
    v = spec_text_array_layout count ss @ tail \<longrightarrow>
      (length ss = nat (sint count) \<longrightarrow>
         dbParseArray_jstring key v = (Some (map Some ss), [])) \<and>
      (length ss < nat (sint count) \<and> tail = [] \<longrightarrow>
         dbParseArray_jstring key v =
           (Some (map Some ss @ replicate (nat (sint count) - length ss) None), [])) \<and>
      (length ss < nat (sint count) \<and> 0 < length tail \<and> length tail < 4 \<longrightarrow>
         dbParseArray_jstring key v =
           (None, [Exn IllegalStateException (makeErrorText (ERROR_PREFIX ''dbParseArray'' 702)
                     (to_string (length tail) @ '' < 4'') key)])) \<and>
      (length ss < nat (sint count) \<and> tail = bytes_of (len :: jsize) @ rest \<and> sint len < 0 \<longrightarrow>
         dbParseArray_jstring key v =
           (None, [Exn IllegalStateException (makeErrorText (ERROR_PREFIX ''dbParseArray'' 710)
                     (to_string_int (sint len) @ '' < 0'') key)])) \<and>
      (length ss < nat (sint count) \<and> tail = bytes_of len @ rest \<and> 0 \<le> sint len \<and>
       length rest < 2 * nat (sint len) \<longrightarrow>
         dbParseArray_jstring key v =
           (None, [Exn IllegalStateException (makeErrorText (ERROR_PREFIX ''dbParseArray'' 714)
                     (to_string (length rest) @ '' < ('' @ to_string_int (sint len) @ '' * 2)'')
                     key)])))"
proof (intro conjI impI)
  assume "length u < 4"
  then show "dbParseArray_jstring key u =
        (None, [Exn IllegalStateException (makeErrorText (ERROR_PREFIX ''dbParseArray'' 680)
                  (to_string (length u) @ '' < 4'') key)])"
    by (simp add: dbParseArray_jstring_def sizeof_simps ON_VALUE_ERROR_def LESS_MESSAGE_def
        to_string_eval)
next
  assume h: "(\<forall>s\<in>set ss. length s < 2 ^ 31) \<and> 0 \<le> sint count \<and> length ss \<le> nat (sint count) \<and>
    v = spec_text_array_layout count ss @ tail"
  let ?pos = "4 + length (concat (map spec_string_layout ss))"
  let ?res = "map Some ss @ replicate (nat (sint count) - length ss) None"
  from h have hs: "\<forall>s\<in>set ss. length s < 2 ^ 31" and hc: "0 \<le> sint count"
    and hl: "length ss \<le> nat (sint count)" and hv: "v = spec_text_array_layout count ss @ tail"
    by blast+
  have start: "dbParseArray_jstring key v =
     parse_strings_loop key v count (length ss) ?pos (length tail) ?res"
    unfolding hv by (rule dbParseArray_jstring_prefix [OF hs hc hl])
  have d: "drop ?pos v = tail"
    unfolding hv by (simp add: spec_text_array_layout_def length_bytes_of sizeof_simps)
  {
    assume a: "length ss = nat (sint count)"
    then have n: "\<not> (int (length ss) < sint count \<and> 0 < length tail)" by simp
    show "dbParseArray_jstring key v = (Some (map Some ss), [])"
      unfolding start parse_strings_loop_stop [OF n] using a by simp
  }
  {
    assume a: "length ss < nat (sint count) \<and> tail = []"
    then have n: "\<not> (int (length ss) < sint count \<and> 0 < length tail)" by simp
    show "dbParseArray_jstring key v =
           (Some (map Some ss @ replicate (nat (sint count) - length ss) None), [])"
      unfolding start parse_strings_loop_stop [OF n] by simp
  }
  {
    assume a: "length ss < nat (sint count) \<and> 0 < length tail \<and> length tail < 4"
    then have i: "int (length ss) < sint count" and t0: "0 < length tail" and t4: "length tail < 4"
      by linarith+
    show "dbParseArray_jstring key v =
           (None, [Exn IllegalStateException (makeErrorText (ERROR_PREFIX ''dbParseArray'' 702)
                     (to_string (length tail) @ '' < 4'') key)])"
      unfolding start parse_strings_loop_short [OF i t0 t4]
      by (simp add: ON_VALUE_ERROR_def LESS_MESSAGE_def)
  }
  {
    assume a: "length ss < nat (sint count) \<and> tail = bytes_of len @ rest \<and> sint len < 0"
    then have i: "int (length ss) < sint count" and neg: "sint len < 0" by linarith+
    have d': "drop ?pos v = bytes_of len @ rest" using d a by simp
    have r: "length tail = 4 + length rest" using a by (simp add: length_bytes_of sizeof_simps)
    show "dbParseArray_jstring key v =
           (None, [Exn IllegalStateException (makeErrorText (ERROR_PREFIX ''dbParseArray'' 710)
                     (to_string_int (sint len) @ '' < 0'') key)])"
      unfolding start parse_strings_loop_negative [OF i d' r neg]
      by (simp add: ON_VALUE_ERROR_def LESS_MESSAGE_def)
  }
  {
    assume a: "length ss < nat (sint count) \<and> tail = bytes_of len @ rest \<and> 0 \<le> sint len \<and>
       length rest < 2 * nat (sint len)"
    then have i: "int (length ss) < sint count" and nn: "0 \<le> sint len"
      and sh: "length rest < 2 * nat (sint len)" by linarith+
    have d': "drop ?pos v = bytes_of len @ rest" using d a by simp
    have r: "length tail = 4 + length rest" using a by (simp add: length_bytes_of sizeof_simps)
    show "dbParseArray_jstring key v =
           (None, [Exn IllegalStateException (makeErrorText (ERROR_PREFIX ''dbParseArray'' 714)
                     (to_string (length rest) @ '' < ('' @ to_string_int (sint len) @ '' * 2)'')
                     key)])"
      unfolding start parse_strings_loop_truncated [OF i d' r nn sh]
      by (simp add: ON_VALUE_ERROR_def)
  }
qed


lemma bytes_of_jsize:
  "bytes_of (w :: jsize) =
     [of_nat (unat w mod 256), of_nat (unat w div 256 mod 256),
      of_nat (unat w div 256 div 256 mod 256), of_nat (unat w div 256 div 256 div 256 mod 256)]"
  by (simp add: bytes_of_def sizeof_simps le_bytes_numeral)

lemma bytes_of_jchar:
  "bytes_of (w :: jchar) = [of_nat (unat w mod 256), of_nat (unat w div 256 mod 256)]"
  by (simp add: bytes_of_def sizeof_simps le_bytes_numeral)

theorem text_array_decode_witness:
  "dbParseArray_jstring ''k'' [1, 2, 3] =
     (None, [Exn IllegalStateException ''dbParseArray:680: 3 < 4, key:k'']) \<and>
   dbParseArray_jstring ''k'' [2, 0, 0, 0, 2, 0, 0, 0, 104, 0, 105, 0, 1, 0, 0, 0, 97, 0] =
     (Some [Some str_hi, Some str_a], []) \<and>
   dbParseArray_jstring ''k'' [3, 0, 0, 0, 1, 0, 0, 0, 97, 0] =
     (Some [Some str_a, None, None], []) \<and>
   dbParseArray_jstring ''k'' [1, 0, 0, 0, 1, 2] =
     (None, [Exn IllegalStateException ''dbParseArray:702: 2 < 4, key:k'']) \<and>
   dbParseArray_jstring ''k'' [1, 0, 0, 0, 255, 255, 255, 255] =
     (None, [Exn IllegalStateException ''dbParseArray:710: -1 < 0, key:k'']) \<and>
   dbParseArray_jstring ''k'' [1, 0, 0, 0, 3, 0, 0, 0, 97, 0] =
     (None, [Exn IllegalStateException ''dbParseArray:714: 2 < (3 * 2), key:k''])"
proof -
  have v1: "spec_text_array_layout 2 [str_hi, str_a] =
      [2, 0, 0, 0, 2, 0, 0, 0, 104, 0, 105, 0, 1, 0, 0, 0, 97, 0]"
    by (simp add: spec_text_array_layout_def spec_string_layout_def bytes_of_jsize bytes_of_jchar
        str_hi_def str_a_def)
  have v2: "spec_text_array_layout 1 [] @ [1, 2] = [1, 0, 0, 0, 1, 2]"
    by (simp add: spec_text_array_layout_def bytes_of_jsize)
  have v3: "spec_text_array_layout 1 [] @ bytes_of (4294967295 :: jsize) =
      [1, 0, 0, 0, 255, 255, 255, 255]"
    by (simp add: spec_text_array_layout_def bytes_of_jsize)
  have v4: "spec_text_array_layout 1 [] @ (bytes_of (3 :: jsize) @ [97, 0]) =
      [1, 0, 0, 0, 3, 0, 0, 0, 97, 0]"
    by (simp add: spec_text_array_layout_def bytes_of_jsize)
  have b: "\<forall>s\<in>set [str_hi, str_a]. length s < 2 ^ 31" "\<forall>s\<in>set ([] :: jstring list). length s < 2 ^ 31"
    by (simp_all add: str_hi_def str_a_def)
  have 0: "dbParseArray_jstring ''k'' [1, 2, 3] =
     (None, [Exn IllegalStateException ''dbParseArray:680: 3 < 4, key:k''])"
    using text_array_decode [of "[1, 2, 3]" "''k''" "[]" 0 "[]" "[]" 0 "[]"]
    by (simp add: makeErrorText_def ERROR_PREFIX_def to_string_eval)
  have 1: "dbParseArray_jstring ''k'' [2, 0, 0, 0, 2, 0, 0, 0, 104, 0, 105, 0, 1, 0, 0, 0, 97, 0] =
     (Some [Some str_hi, Some str_a], [])"
    using text_array_decode [of "[]" "''k''" "[str_hi, str_a]" 2
        "spec_text_array_layout 2 [str_hi, str_a] @ []" "[]" 0 "[]"] b
    by (simp add: v1)
  have v5: "spec_text_array_layout 3 [str_a] = [3, 0, 0, 0, 1, 0, 0, 0, 97, 0]"
    by (simp add: spec_text_array_layout_def spec_string_layout_def bytes_of_jsize bytes_of_jchar
        str_a_def)
  have 5: "dbParseArray_jstring ''k'' [3, 0, 0, 0, 1, 0, 0, 0, 97, 0] =
     (Some [Some str_a, None, None], [])"
  proof -
    have bnd: "\<forall>s\<in>set [str_a]. length s < 2 ^ 31" by (simp add: str_a_def)
    have "dbParseArray_jstring ''k'' (spec_text_array_layout 3 [str_a] @ []) =
        (Some (map Some [str_a] @ replicate (nat (sint (3 :: jsize)) - length [str_a]) None), [])"
      using text_array_decode [of "[]" "''k''" "[str_a]" 3
          "spec_text_array_layout 3 [str_a] @ []" "[]" 0 "[]"] bnd
      by simp
    then show ?thesis by (simp add: v5 numeral_2_eq_2)
  qed
  have 2: "dbParseArray_jstring ''k'' [1, 0, 0, 0, 1, 2] =
     (None, [Exn IllegalStateException ''dbParseArray:702: 2 < 4, key:k''])"
    using text_array_decode [of "[]" "''k''" "[]" 1 "spec_text_array_layout 1 [] @ [1, 2]"
        "[1, 2]" 0 "[]"]
    by (simp add: v2 makeErrorText_def ERROR_PREFIX_def to_string_eval)
  have 3: "dbParseArray_jstring ''k'' [1, 0, 0, 0, 255, 255, 255, 255] =
     (None, [Exn IllegalStateException ''dbParseArray:710: -1 < 0, key:k''])"
    using text_array_decode [of "[]" "''k''" "[]" 1
        "spec_text_array_layout 1 [] @ (bytes_of (4294967295 :: jsize) @ [])"
        "bytes_of (4294967295 :: jsize) @ []" 4294967295 "[]"]
    by (simp add: v3 makeErrorText_def ERROR_PREFIX_def to_string_eval to_string_int_def)
  have 4: "dbParseArray_jstring ''k'' [1, 0, 0, 0, 3, 0, 0, 0, 97, 0] =
     (None, [Exn IllegalStateException ''dbParseArray:714: 2 < (3 * 2), key:k''])"
    using text_array_decode [of "[]" "''k''" "[]" 1
        "spec_text_array_layout 1 [] @ (bytes_of (3 :: jsize) @ [97, 0])"
        "bytes_of (3 :: jsize) @ [97, 0]" 3 "[97, 0]"]
    by (simp add: v4 makeErrorText_def ERROR_PREFIX_def to_string_eval to_string_int_def)
  show ?thesis using 0 1 5 2 3 4 by simp
qed

text \<open>
  Claim C2 as stated fails: a buffer that declares two strings and holds one, or none,
  is decoded without an error into an array whose missing entries are null.
\<close>

theorem text_array_exhausted_counterexample:
  "dbParseArray_jstring ''k'' [2, 0, 0, 0, 1, 0, 0, 0, 97, 0] = (Some [Some str_a, None], []) \<and>
   dbParseArray_jstring ''k'' [2, 0, 0, 0] = (Some [None, None], [])"
proof -
  have v1: "spec_text_array_layout 2 [str_a] = [2, 0, 0, 0, 1, 0, 0, 0, 97, 0]"
    by (simp add: spec_text_array_layout_def spec_string_layout_def bytes_of_jsize bytes_of_jchar
        str_a_def)
  have v2: "spec_text_array_layout 2 [] = [2, 0, 0, 0]"
    by (simp add: spec_text_array_layout_def bytes_of_jsize)
  have 1: "dbParseArray_jstring ''k'' (spec_text_array_layout 2 [str_a]) =
      (Some (map Some [str_a] @ replicate (nat (sint (2 :: jsize)) - length [str_a]) None), [])"
    by (rule dbParseArray_jstring_exhausted) (simp_all add: str_a_def)
  have 2: "dbParseArray_jstring ''k'' (spec_text_array_layout 2 []) =
      (Some (map Some [] @ replicate (nat (sint (2 :: jsize)) - length ([] :: jstring list)) None), [])"
    by (rule dbParseArray_jstring_exhausted) simp_all
  show ?thesis using 1 2 by (simp add: v1 v2 numeral_2_eq_2)
qed

subsection \<open>Round trip\<close>

lemma scalar_round_trip:
  assumes "8 * sizeof TYPE('a::len) = LENGTH('a)"
  shows "dbParse key (put_value (v :: 'a word)) d t = (v, [])"
  using jni_as_bytes_of [OF assms, of v "[]"]
  by (simp add: dbParse_def put_value_def length_bytes_of)

lemma sizeof_pos: "8 * sizeof TYPE('a::len) = LENGTH('a) \<Longrightarrow> 0 < sizeof TYPE('a)"
  by (cases "sizeof TYPE('a) = 0") simp_all

lemma put_array_concat:
  assumes "length xs < 2 ^ 31"
  shows "put_array (xs :: 'a::len word list) = concat (map bytes_of xs)"
  using sint_jsize [OF assms] by (simp add: put_array_def length_concat_bytes)

lemma array_round_trip:
  assumes "8 * sizeof TYPE('a::len) = LENGTH('a)" and "length xs < 2 ^ 31"
  shows "dbParseArray key (put_array (xs :: 'a word list)) = (Some xs, [])"
proof -
  have pos: "0 < sizeof TYPE('a)" using assms(1) by (rule sizeof_pos)
  have len: "length (concat (map bytes_of xs)) = length xs * sizeof TYPE('a)"
    by (rule length_concat_bytes)
  have sl: "sint (of_nat (length xs) :: jsize) = int (length xs)"
    using assms(2) by (rule sint_jsize)
  have rd: "(read_elems (length xs) (concat (map bytes_of xs)) :: 'a word list) = xs"
    using read_elems_bytes [OF assms(1), of xs "[]"] by simp
  show ?thesis
    unfolding put_array_concat [OF assms(2)] dbParseArray_def Let_def
    using pos by (simp add: len sl array_new_def rd)
qed

lemma put_string_concat:
  assumes "length s < 2 ^ 31"
  shows "put_string s = concat (map bytes_of s)"
  using sint_jsize [OF assms] by (simp add: put_string_def length_concat_bytes)

lemma string_round_trip:
  assumes "length s < 2 ^ 31"
  shows "dbParse_jstring key (put_string s) d t = (Some s, [])"
proof -
  have len: "length (concat (map bytes_of s)) = length s * 2"
    by (simp add: length_concat_bytes sizeof_simps)
  have sl: "sint (of_nat (length s) :: jsize) = int (length s)"
    using assms by (rule sint_jsize)
  have rd: "read_elems (length s) (concat (map bytes_of s)) = s"
    using read_elems_bytes [OF jchar_ok, of s "[]"] by simp
  show ?thesis
    unfolding put_string_concat [OF assms] dbParse_jstring_def Let_def
    by (simp add: len sl rd sizeof_simps)
qed

lemma fill_loop_layout:
  "\<forall>s\<in>set ss. length s < 2 ^ 31 \<Longrightarrow>
   fill_loop ss buffer = buffer @ concat (map spec_string_layout ss)"
proof (induction ss arbitrary: buffer)
  case Nil
  then show ?case by simp
next
  case (Cons s ss)
  have sl: "sint (of_nat (length s) :: jsize) = int (length s)"
    using Cons.prems by (simp add: sint_jsize)
  have step: "bytes_of (of_nat (length s) :: jsize) @
        (if 0 < sint (of_nat (length s) :: jsize)
         then take (nat (sint (of_nat (length s) :: jsize)) * sizeof TYPE(16))
                (concat (map bytes_of s))
         else []) = spec_string_layout s"
    by (simp add: sl length_concat_bytes spec_string_layout_def)
  have "fill_loop (s # ss) buffer = fill_loop ss (buffer @ spec_string_layout s)"
    by (simp only: fill_loop.simps Let_def step)
  also have "\<dots> = (buffer @ spec_string_layout s) @ concat (map spec_string_layout ss)"
    using Cons.prems by (intro Cons.IH) simp
  finally show ?case by simp
qed

lemma buffer_size_loop_layout:
  "\<forall>s\<in>set ss. length s < 2 ^ 31 \<Longrightarrow>
   buffer_size_loop ss n = n + length (concat (map spec_string_layout ss))"
proof (induction ss arbitrary: n)
  case Nil
  then show ?case by simp
next
  case (Cons s ss)
  have sl: "sint (of_nat (length s) :: jsize) = int (length s)"
    using Cons.prems by (simp add: sint_jsize)
  show ?case
    using Cons by (simp add: sl length_spec_string_layout sizeof_simps)
qed

lemma put_string_array_layout:
  assumes "\<forall>s\<in>set ss. length s < 2 ^ 31"
  shows "put_string_array ss = spec_text_array_layout (of_nat (length ss)) ss"
  by (simp add: put_string_array_def Let_def fill_loop_layout [OF assms]
      buffer_size_loop_layout [OF assms] spec_text_array_layout_def length_bytes_of)

lemma string_array_round_trip:
  assumes "length ss < 2 ^ 31" and "\<forall>s\<in>set ss. length s < 2 ^ 31"
  shows "dbParseArray_jstring key (put_string_array ss) = (Some (map Some ss), [])"
proof -
  have sl: "sint (of_nat (length ss) :: jsize) = int (length ss)"
    using assms(1) by (rule sint_jsize)
  have "dbParseArray_jstring key (spec_text_array_layout (of_nat (length ss)) ss @ []) =
        (Some (map Some ss), [])"
    by (rule dbParseArray_jstring_complete [OF assms(2)]) (simp_all add: sl)
  then show ?thesis by (simp add: put_string_array_layout [OF assms(2)])
qed

text \<open>
  Claim C4. What a setter stores, the matching getter decodes to the value it was given,
  with no error: for the scalars of 8, 32 and 64 bits (\<^verbatim>\<open>jboolean\<close>, \<^verbatim>\<open>jbyte\<close>; \<^verbatim>\<open>jint\<close>,
  \<^verbatim>\<open>jfloat\<close>; \<^verbatim>\<open>jlong\<close>, \<^verbatim>\<open>jdouble\<close>), for arrays of them, for strings and for string arrays. A
  Java array or string has fewer than \<open>2 ^ 31\<close> elements, which is the only condition. The
  empty array and the empty string are stored as no bytes, like the unit value of
  \<^verbatim>\<open>dbPutVoid\<close>, and the empty string array as the four bytes of the count 0.
\<close>

theorem codec_round_trip:
  "dbParse key (put_value (b :: 8 word)) d8 t = (b, []) \<and>
   dbParse key (put_value (i :: 32 word)) d32 t = (i, []) \<and>
   dbParse key (put_value (l :: 64 word)) d64 t = (l, []) \<and>
   (length bs < 2 ^ 31 \<longrightarrow> dbParseArray key (put_array (bs :: 8 word list)) = (Some bs, [])) \<and>
   (length is < 2 ^ 31 \<longrightarrow> dbParseArray key (put_array (is :: 32 word list)) = (Some is, [])) \<and>
   (length ls < 2 ^ 31 \<longrightarrow> dbParseArray key (put_array (ls :: 64 word list)) = (Some ls, [])) \<and>
   (length s < 2 ^ 31 \<longrightarrow> dbParse_jstring key (put_string s) ds t = (Some s, [])) \<and>
   (length ss < 2 ^ 31 \<and> (\<forall>s\<in>set ss. length s < 2 ^ 31) \<longrightarrow>
      dbParseArray_jstring key (put_string_array ss) = (Some (map Some ss), [])) \<and>
   put_array ([] :: 8 word list) = [] \<and> put_array ([] :: 32 word list) = [] \<and>
   put_array ([] :: 64 word list) = [] \<and> put_string [] = [] \<and> put_void = [] \<and>
   put_string_array [] = [0, 0, 0, 0]"
proof -
  have o8: "8 * sizeof TYPE(8) = LENGTH(8)" and o32: "8 * sizeof TYPE(32) = LENGTH(32)"
    and o64: "8 * sizeof TYPE(64) = LENGTH(64)"
    by (simp_all add: sizeof_def)
  have e: "put_array ([] :: 8 word list) = [] \<and> put_array ([] :: 32 word list) = [] \<and>
      put_array ([] :: 64 word list) = [] \<and> put_string [] = [] \<and> put_void = []"
    by (simp add: put_array_def put_string_def put_void_def)
  have z: "put_string_array [] = [0, 0, 0, 0]"
    by (simp add: put_string_array_def bytes_of_jsize sizeof_simps)
  show ?thesis
    using scalar_round_trip [OF o8] scalar_round_trip [OF o32] scalar_round_trip [OF o64]
      array_round_trip [OF o8] array_round_trip [OF o32] array_round_trip [OF o64]
      string_round_trip string_array_round_trip e z
    by simp
qed

theorem codec_round_trip_witness:
  "dbParse ''k'' (put_value (1 :: 8 word)) 0 JNI_FALSE = (1 :: 8 word, []) \<and>
   put_value (1 :: 8 word) = [1] \<and>
   dbParse ''k'' (put_value (- 2 :: 32 word)) 0 JNI_FALSE = (- 2 :: 32 word, []) \<and>
   put_value (4294967294 :: 32 word) = [254, 255, 255, 255] \<and>
   dbParseArray ''k'' (put_array [1, 2, 3 :: 32 word]) = (Some [1, 2, 3 :: 32 word], []) \<and>
   put_array [1, 2, 3 :: 32 word] = [1, 0, 0, 0, 2, 0, 0, 0, 3, 0, 0, 0] \<and>
   dbParseArray ''k'' (put_array ([] :: 64 word list)) = (Some ([] :: 64 word list), []) \<and>
   dbParse_jstring ''k'' (put_string str_hi) None JNI_FALSE = (Some str_hi, []) \<and>
   put_string str_hi = [104, 0, 105, 0] \<and>
   dbParse_jstring ''k'' (put_string []) None JNI_FALSE = (Some [], []) \<and>
   dbParseArray_jstring ''k'' (put_string_array [str_hi, [], str_a]) =
     (Some [Some str_hi, Some [], Some str_a], []) \<and>
   put_string_array [str_hi, [], str_a] =
     [3, 0, 0, 0, 2, 0, 0, 0, 104, 0, 105, 0, 0, 0, 0, 0, 1, 0, 0, 0, 97, 0] \<and>
   dbParseArray_jstring ''k'' (put_string_array []) = (Some [], [])"
proof -
  have b: "length [str_hi, [], str_a] < 2 ^ 31 \<and> (\<forall>s\<in>set [str_hi, [], str_a]. length s < 2 ^ 31)"
    by (simp add: str_hi_def str_a_def)
  have p1: "put_value (1 :: 8 word) = [1]"
    by (simp add: put_value_def bytes_of_def sizeof_simps)
  have p2: "put_value (4294967294 :: 32 word) = [254, 255, 255, 255]"
    by (simp add: put_value_def bytes_of_jsize)
  have p3: "put_array [1, 2, 3 :: 32 word] = [1, 0, 0, 0, 2, 0, 0, 0, 3, 0, 0, 0]"
    by (simp add: put_array_def bytes_of_jsize sizeof_simps)
  have p4: "put_string str_hi = [104, 0, 105, 0]"
    by (simp add: put_string_def bytes_of_jchar sizeof_simps str_hi_def)
  have p5: "put_string_array [str_hi, [], str_a] =
     [3, 0, 0, 0, 2, 0, 0, 0, 104, 0, 105, 0, 0, 0, 0, 0, 1, 0, 0, 0, 97, 0]"
    by (simp add: put_string_array_def bytes_of_jsize bytes_of_jchar sizeof_simps str_hi_def
        str_a_def)
  note t1 = codec_round_trip [of "''k''" 1 0 JNI_FALSE "- 2" 0 0 0 "[]" "[1, 2, 3]" "[]" str_hi None
        "[str_hi, [], str_a]"]
  note t2 = codec_round_trip [of "''k''" 1 0 JNI_FALSE "- 2" 0 0 0 "[]" "[1, 2, 3]" "[]" "[]" None "[]"]
  note a1 = t1 [THEN conjunct2]
  note a2 = a1 [THEN conjunct2]
  note a3 = a2 [THEN conjunct2]
  note a4 = a3 [THEN conjunct2]
  note a5 = a4 [THEN conjunct2]
  note a6 = a5 [THEN conjunct2]
  note a7 = a6 [THEN conjunct2]
  note b7 = t2 [THEN conjunct2, THEN conjunct2, THEN conjunct2, THEN conjunct2, THEN conjunct2,
      THEN conjunct2]
  have r1: "dbParse ''k'' (put_value (1 :: 8 word)) 0 JNI_FALSE = (1 :: 8 word, [])"
    by (rule t1 [THEN conjunct1])
  have r2: "dbParse ''k'' (put_value (- 2 :: 32 word)) 0 JNI_FALSE = (- 2 :: 32 word, [])"
    by (rule a1 [THEN conjunct1])
  have r3: "dbParseArray ''k'' (put_array [1, 2, 3 :: 32 word]) = (Some [1, 2, 3 :: 32 word], [])"
    using a4 [THEN conjunct1] by simp
  have r4: "dbParseArray ''k'' (put_array ([] :: 64 word list)) = (Some ([] :: 64 word list), [])"
    using a5 [THEN conjunct1] by simp
  have r5: "dbParse_jstring ''k'' (put_string str_hi) None JNI_FALSE = (Some str_hi, [])"
    using a6 [THEN conjunct1] by (simp add: str_hi_def)
  have r6: "dbParse_jstring ''k'' (put_string []) None JNI_FALSE = (Some [], [])"
    using b7 [THEN conjunct1] by simp
  have r7: "dbParseArray_jstring ''k'' (put_string_array [str_hi, [], str_a]) =
     (Some [Some str_hi, Some [], Some str_a], [])"
    using a7 [THEN conjunct1] b by simp
  have r8: "dbParseArray_jstring ''k'' (put_string_array []) = (Some [], [])"
    using b7 [THEN conjunct2, THEN conjunct1] by simp
  show ?thesis
    by (intro conjI r1 p1 r2 p2 r3 p3 r4 r5 p4 r6 r7 p5 r8)
qed

end
